theory Spec2Isabelle
  imports Main "HOL-Library.Word"
begin

section \<open>Comment stripper\<close>

text \<open>
  \<^verbatim>\<open>SqlStripCommentsFunc\<close> (parser.cpp) scans a \<^verbatim>\<open>std::string\<close> with an index \<^verbatim>\<open>i\<close>, three
  flags and the quote character of the string literal it is in; \<^verbatim>\<open>StripComments\<close>
  (parser.c) does the same over a C string. The loops are modelled by recursion on the
  part of the input from index \<^verbatim>\<open>i\<close> on; the flags and \<^verbatim>\<open>string_char\<close> are passed along, and
  the characters appended to the output are produced in the order the loop appends them.
  An iteration that does \<^verbatim>\<open>i++\<close> in its body continues two characters further.
\<close>

abbreviation NUL :: char where "NUL \<equiv> CHR 0x00"
abbreviation newline :: char where "newline \<equiv> CHR 0x0A"
abbreviation squote :: char where "squote \<equiv> CHR 0x27"
abbreviation dquote :: char where "dquote \<equiv> CHR 0x22"

text \<open>The body of the lambda in \<^verbatim>\<open>SqlStripCommentsFunc\<close>: the \<^verbatim>\<open>for\<close> loop, with
  \<^verbatim>\<open>c = input[i]\<close>, \<^verbatim>\<open>rest\<close> the characters from \<^verbatim>\<open>i + 1\<close> on, and
  \<^verbatim>\<open>next = (i + 1 < input.size()) ? input[i + 1] : 0\<close>.\<close>

function SqlStripCommentsLoop :: "bool \<Rightarrow> bool \<Rightarrow> bool \<Rightarrow> char \<Rightarrow> string \<Rightarrow> string" where
  "SqlStripCommentsLoop in_line_comment in_block_comment in_string string_char [] = []"
| "SqlStripCommentsLoop in_line_comment in_block_comment in_string string_char (c # rest) =
    (let next = (if rest \<noteq> [] then hd rest else NUL) in
     if in_line_comment then
       (if c = newline
        then c # SqlStripCommentsLoop False in_block_comment in_string string_char rest
        else SqlStripCommentsLoop in_line_comment in_block_comment in_string string_char rest)
     else if in_block_comment then
       (if c = CHR ''*'' \<and> next = CHR ''/''
        then SqlStripCommentsLoop in_line_comment False in_string string_char (tl rest)
        else SqlStripCommentsLoop in_line_comment in_block_comment in_string string_char rest)
     else if in_string then
       (if c = string_char \<and> (rest = [] \<or> hd rest \<noteq> string_char)
        then c # SqlStripCommentsLoop in_line_comment in_block_comment False string_char rest
        else if c = string_char
        then c # hd rest # SqlStripCommentsLoop in_line_comment in_block_comment in_string string_char (tl rest)
        else c # SqlStripCommentsLoop in_line_comment in_block_comment in_string string_char rest)
     else if c = CHR ''-'' \<and> next = CHR ''-''
     then SqlStripCommentsLoop True in_block_comment in_string string_char (tl rest)
     else if c = CHR ''/'' \<and> next = CHR ''*''
     then SqlStripCommentsLoop in_line_comment True in_string string_char (tl rest)
     else if c = squote \<or> c = dquote
     then c # SqlStripCommentsLoop in_line_comment in_block_comment True c rest
     else c # SqlStripCommentsLoop in_line_comment in_block_comment in_string string_char rest)"
  by pat_completeness auto
termination
  by (relation "measure (\<lambda>(_, _, _, _, input). length input)") auto

definition SqlStripCommentsFunc :: "string \<Rightarrow> string" where
  "SqlStripCommentsFunc input = SqlStripCommentsLoop False False False NUL input"

text \<open>The loop of \<^verbatim>\<open>StripComments\<close> over the \<^verbatim>\<open>len\<close> bytes of \<^verbatim>\<open>sql\<close>; the look-ahead is
  guarded by \<^verbatim>\<open>i + 1 < len\<close>, and the quote test comes before the comment tests.\<close>

function StripCommentsLoop :: "bool \<Rightarrow> bool \<Rightarrow> bool \<Rightarrow> char \<Rightarrow> string \<Rightarrow> string" where
  "StripCommentsLoop in_line_comment in_block_comment in_string string_char [] = []"
| "StripCommentsLoop in_line_comment in_block_comment in_string string_char (c # rest) =
    (if in_line_comment then
       (if c = newline
        then c # StripCommentsLoop False in_block_comment in_string string_char rest
        else StripCommentsLoop in_line_comment in_block_comment in_string string_char rest)
     else if in_block_comment then
       (if c = CHR ''*'' \<and> rest \<noteq> [] \<and> hd rest = CHR ''/''
        then StripCommentsLoop in_line_comment False in_string string_char (tl rest)
        else StripCommentsLoop in_line_comment in_block_comment in_string string_char rest)
     else if in_string then
       (if c = string_char then
          (if rest \<noteq> [] \<and> hd rest = string_char
           then c # hd rest # StripCommentsLoop in_line_comment in_block_comment in_string string_char (tl rest)
           else c # StripCommentsLoop in_line_comment in_block_comment False string_char rest)
        else c # StripCommentsLoop in_line_comment in_block_comment in_string string_char rest)
     else
       (if c = squote \<or> c = dquote
        then c # StripCommentsLoop in_line_comment in_block_comment True c rest
        else if c = CHR ''-'' \<and> rest \<noteq> [] \<and> hd rest = CHR ''-''
        then StripCommentsLoop True in_block_comment in_string string_char (tl rest)
        else if c = CHR ''/'' \<and> rest \<noteq> [] \<and> hd rest = CHR ''*''
        then StripCommentsLoop in_line_comment True in_string string_char (tl rest)
        else c # StripCommentsLoop in_line_comment in_block_comment in_string string_char rest))"
  by pat_completeness auto
termination
  by (relation "measure (\<lambda>(_, _, _, _, sql). length sql)") auto

text \<open>\<^verbatim>\<open>strlen\<close>: the number of bytes before the first NUL of the memory \<^verbatim>\<open>sql\<close> points to.\<close>

definition strlen :: "string \<Rightarrow> nat" where
  "strlen sql = length (takeWhile (\<lambda>c. c \<noteq> NUL) sql)"

definition StripComments :: "string \<Rightarrow> string" where
  "StripComments sql =
     (let len = strlen sql in StripCommentsLoop False False False NUL (take len sql))"

text \<open>Whether the loop of \<^verbatim>\<open>SqlStripCommentsFunc\<close> appends, outside a string literal, a
  \<^verbatim>\<open>-\<close> right behind a \<^verbatim>\<open>-\<close> or a \<^verbatim>\<open>*\<close> right behind a \<^verbatim>\<open>/\<close>: the same branches as
  \<^const>\<open>SqlStripCommentsLoop\<close>, with the character appended last, \<open>prev\<close>, in place of the
  output.\<close>

function joins_marker :: "bool \<Rightarrow> bool \<Rightarrow> bool \<Rightarrow> char \<Rightarrow> char \<Rightarrow> string \<Rightarrow> bool" where
  "joins_marker in_line_comment in_block_comment in_string string_char prev [] = False"
| "joins_marker in_line_comment in_block_comment in_string string_char prev (c # rest) =
    (let next = (if rest \<noteq> [] then hd rest else NUL) in
     if in_line_comment then
       (if c = newline
        then joins_marker False in_block_comment in_string string_char c rest
        else joins_marker in_line_comment in_block_comment in_string string_char prev rest)
     else if in_block_comment then
       (if c = CHR ''*'' \<and> next = CHR ''/''
        then joins_marker in_line_comment False in_string string_char prev (tl rest)
        else joins_marker in_line_comment in_block_comment in_string string_char prev rest)
     else if in_string then
       (if c = string_char \<and> (rest = [] \<or> hd rest \<noteq> string_char)
        then joins_marker in_line_comment in_block_comment False string_char c rest
        else if c = string_char
        then joins_marker in_line_comment in_block_comment in_string string_char (hd rest) (tl rest)
        else joins_marker in_line_comment in_block_comment in_string string_char c rest)
     else if c = CHR ''-'' \<and> next = CHR ''-''
     then joins_marker True in_block_comment in_string string_char prev (tl rest)
     else if c = CHR ''/'' \<and> next = CHR ''*''
     then joins_marker in_line_comment True in_string string_char prev (tl rest)
     else if c = squote \<or> c = dquote
     then joins_marker in_line_comment in_block_comment True c c rest
     else (prev = CHR ''-'' \<and> c = CHR ''-'') \<or> (prev = CHR ''/'' \<and> c = CHR ''*'') \<or>
          joins_marker in_line_comment in_block_comment in_string string_char c rest)"
  by pat_completeness auto
termination
  by (relation "measure (\<lambda>(_, _, _, _, _, input). length input)") auto

definition joins_comment_marker :: "string \<Rightarrow> bool" where
  "joins_comment_marker input = joins_marker False False False NUL NUL input"

text \<open>Whether the loop, started outside of comments, ever executes
  \<^verbatim>\<open>in_line_comment = true\<close> or \<^verbatim>\<open>in_block_comment = true\<close> on the input: the branches of
  \<^const>\<open>SqlStripCommentsLoop\<close> for the string and the normal state, up to the first
  comment.\<close>

function opens_comment :: "bool \<Rightarrow> char \<Rightarrow> string \<Rightarrow> bool" where
  "opens_comment in_string string_char [] = False"
| "opens_comment in_string string_char (c # rest) =
    (let next = (if rest \<noteq> [] then hd rest else NUL) in
     if in_string then
       (if c = string_char \<and> (rest = [] \<or> hd rest \<noteq> string_char)
        then opens_comment False string_char rest
        else if c = string_char
        then opens_comment in_string string_char (tl rest)
        else opens_comment in_string string_char rest)
     else if c = CHR ''-'' \<and> next = CHR ''-''
     then True
     else if c = CHR ''/'' \<and> next = CHR ''*''
     then True
     else if c = squote \<or> c = dquote
     then opens_comment True c rest
     else opens_comment in_string string_char rest)"
  by pat_completeness auto
termination
  by (relation "measure (\<lambda>(_, _, input). length input)") auto

text \<open>The body of a properly quoted string literal with quote character \<open>q\<close>: every
  occurrence of \<open>q\<close> in it is one half of a doubled quote.\<close>

fun doubled_quotes_only :: "char \<Rightarrow> string \<Rightarrow> bool" where
  "doubled_quotes_only q [] = True"
| "doubled_quotes_only q [c] = (c \<noteq> q)"
| "doubled_quotes_only q (c # d # rest) =
     (if c = q then d = q \<and> doubled_quotes_only q rest else doubled_quotes_only q (d # rest))"

text \<open>The example of the specification, \<^verbatim>\<open>SELECT '--not a comment'\<close>.\<close>

definition select_not_a_comment :: string where
  "select_not_a_comment = ''SELECT '' @ [squote] @ ''--not a comment'' @ [squote]"

text \<open>An input with a line comment and a block comment, and the input
  \<^verbatim>\<open>a\<close>, NUL, \<^verbatim>\<open>--b\<close>, newline, \<^verbatim>\<open>c\<close> with a NUL byte in it.\<close>

definition two_comments_example :: string where
  "two_comments_example = ''SELECT /* one */ 1 -- two'' @ [newline] @ ''FROM t''"

definition nul_byte_example :: string where
  "nul_byte_example = ''a'' @ [NUL] @ ''--b'' @ [newline] @ ''c''"

section \<open>Parsed statements\<close>

text \<open>
  The syntax tree comes from DuckDB's parser, which is not part of the repository. The
  datatypes below have one constructor for each node class that the extractors of
  parser.cpp cast to, with the fields they read; the constructor stands for the dynamic
  class of the node. A \<^verbatim>\<open>unique_ptr\<close> that the code tests for null is an \<open>option\<close>; the
  elements of a \<^verbatim>\<open>vector\<close> are nodes. The parser's outcome is a parameter of the binding
  functions: it returns the statements or throws an exception with a message.
\<close>

datatype 'a parse_result = Parsed 'a | ParserException string

datatype ExpressionType =
    INVALID | OPERATOR_CAST | OPERATOR_NOT | OPERATOR_IS_NULL | OPERATOR_IS_NOT_NULL
  | COMPARE_EQUAL | COMPARE_NOTEQUAL | COMPARE_LESSTHAN | COMPARE_GREATERTHAN
  | COMPARE_LESSTHANOREQUALTO | COMPARE_GREATERTHANOREQUALTO | COMPARE_IN | COMPARE_NOT_IN
  | COMPARE_DISTINCT_FROM | COMPARE_BETWEEN | COMPARE_NOT_BETWEEN | COMPARE_NOT_DISTINCT_FROM
  | CONJUNCTION_AND | CONJUNCTION_OR | VALUE_CONSTANT | VALUE_PARAMETER | WINDOW_AGGREGATE
  | FUNCTION | CASE_EXPR | SUBQUERY | STAR | COLUMN_REF | LAMBDA

datatype ExpressionClass =
    CLASS_BETWEEN | CLASS_CASE | CLASS_CAST | CLASS_COLUMN_REF | CLASS_COMPARISON
  | CLASS_CONJUNCTION | CLASS_CONSTANT | CLASS_FUNCTION | CLASS_OPERATOR | CLASS_STAR
  | CLASS_SUBQUERY | CLASS_WINDOW | CLASS_PARAMETER | CLASS_LAMBDA

text \<open>
  \<^item> \<open>FunctionExpression alias schema function_name is_operator distinct children\<close>
  \<^item> \<open>ComparisonExpression alias type left right\<close>
  \<^item> \<open>ConjunctionExpression alias type children\<close>
  \<^item> \<open>ColumnRefExpression alias column_name\<close>, the name being what
    \<^verbatim>\<open>GetColumnName()\<close> returns
  \<^item> \<open>ConstantExpression alias value\<close>, the value being what \<^verbatim>\<open>value.ToString()\<close> returns
  \<^item> \<open>OtherExpression alias type class\<close> for the classes the extractors never cast to
    (operators, casts, \<^verbatim>\<open>CASE\<close>, stars, subqueries, windows, ...).
\<close>

datatype ParsedExpression =
    FunctionExpression string string string bool bool "ParsedExpression list"
  | ComparisonExpression string ExpressionType "ParsedExpression option" "ParsedExpression option"
  | ConjunctionExpression string ExpressionType "ParsedExpression list"
  | ColumnRefExpression string string
  | ConstantExpression string string
  | OtherExpression string ExpressionType ExpressionClass

text \<open>The field \<^verbatim>\<open>alias\<close> of an expression.\<close>

fun expression_alias :: "ParsedExpression \<Rightarrow> string" where
  "expression_alias (FunctionExpression a _ _ _ _ _) = a"
| "expression_alias (ComparisonExpression a _ _ _) = a"
| "expression_alias (ConjunctionExpression a _ _) = a"
| "expression_alias (ColumnRefExpression a _) = a"
| "expression_alias (ConstantExpression a _) = a"
| "expression_alias (OtherExpression a _ _) = a"

text \<open>The field \<^verbatim>\<open>type\<close> of an expression.\<close>

fun expression_type :: "ParsedExpression \<Rightarrow> ExpressionType" where
  "expression_type (FunctionExpression _ _ _ _ _ _) = FUNCTION"
| "expression_type (ComparisonExpression _ t _ _) = t"
| "expression_type (ConjunctionExpression _ t _) = t"
| "expression_type (ColumnRefExpression _ _) = COLUMN_REF"
| "expression_type (ConstantExpression _ _) = VALUE_CONSTANT"
| "expression_type (OtherExpression _ t _) = t"

fun GetExpressionClass :: "ParsedExpression \<Rightarrow> ExpressionClass" where
  "GetExpressionClass (FunctionExpression _ _ _ _ _ _) = CLASS_FUNCTION"
| "GetExpressionClass (ComparisonExpression _ _ _ _) = CLASS_COMPARISON"
| "GetExpressionClass (ConjunctionExpression _ _ _) = CLASS_CONJUNCTION"
| "GetExpressionClass (ColumnRefExpression _ _) = CLASS_COLUMN_REF"
| "GetExpressionClass (ConstantExpression _ _) = CLASS_CONSTANT"
| "GetExpressionClass (OtherExpression _ _ c) = c"

text \<open>
  The tags of a tree that the parser builds: a conjunction is tagged \<^verbatim>\<open>CONJUNCTION_AND\<close>
  or \<^verbatim>\<open>CONJUNCTION_OR\<close>, and a node of another class carries none of the tags that the
  extractors test before a cast, nor, outside \<^verbatim>\<open>ComparisonExpression\<close>, the class
  \<^verbatim>\<open>COMPARISON\<close>.
\<close>

definition tested_tags :: "ExpressionType set" where
  "tested_tags = {CONJUNCTION_AND, CONJUNCTION_OR, FUNCTION, COLUMN_REF, VALUE_CONSTANT}"

fun parser_tagged :: "ParsedExpression \<Rightarrow> bool" where
  "parser_tagged (FunctionExpression _ _ _ _ _ children) = list_all parser_tagged children"
| "parser_tagged (ComparisonExpression _ t left right) =
     (t \<notin> tested_tags \<and>
      (case left of None \<Rightarrow> True | Some l \<Rightarrow> parser_tagged l) \<and>
      (case right of None \<Rightarrow> True | Some r \<Rightarrow> parser_tagged r))"
| "parser_tagged (ConjunctionExpression _ t children) =
     ((t = CONJUNCTION_AND \<or> t = CONJUNCTION_OR) \<and> list_all parser_tagged children)"
| "parser_tagged (ColumnRefExpression _ _) = True"
| "parser_tagged (ConstantExpression _ _) = True"
| "parser_tagged (OtherExpression _ t c) = (t \<notin> tested_tags \<and> c \<noteq> CLASS_COMPARISON)"

text \<open>
  \<^item> \<open>BaseTableRef schema_name table_name\<close>
  \<^item> \<open>JoinRef left right\<close>
  \<^item> \<open>SubqueryRef subquery\<close>
  \<^item> \<open>TableFunctionRef function\<close>
  \<^item> \<open>OtherTableRef\<close> for the remaining reference types
  \<^item> \<open>SelectStatement node\<close>
  \<^item> \<open>SelectNode cte_map select_list from_table where_clause group_expressions\<close>
  \<^item> \<open>OtherQueryNode cte_map\<close> for set operations and the other node types
  \<^item> \<open>CommonTableExpressionInfo query\<close>
  The \<^verbatim>\<open>cte_map\<close> is listed in the order in which the code iterates over it.
\<close>

datatype TableRef =
    BaseTableRef string string
  | JoinRef "TableRef option" "TableRef option"
  | SubqueryRef "SelectStatement option"
  | TableFunctionRef "ParsedExpression option"
  | OtherTableRef
and SelectStatement = SelectStatement "QueryNode option"
and QueryNode =
    SelectNode "(string \<times> CommonTableExpressionInfo option) list" "ParsedExpression list"
      "TableRef option" "ParsedExpression option" "ParsedExpression list"
  | OtherQueryNode "(string \<times> CommonTableExpressionInfo option) list"
and CommonTableExpressionInfo = CommonTableExpressionInfo "SelectStatement option"

fun cte_map :: "QueryNode \<Rightarrow> (string \<times> CommonTableExpressionInfo option) list" where
  "cte_map (SelectNode m _ _ _ _) = m"
| "cte_map (OtherQueryNode m) = m"

datatype StatementType =
    SELECT_STATEMENT | INSERT_STATEMENT | UPDATE_STATEMENT | DELETE_STATEMENT
  | CREATE_STATEMENT | OTHER_STATEMENT

text \<open>A statement is a \<^verbatim>\<open>SelectStatement\<close> or a statement of another class, of which only the
  type is read.\<close>

datatype SQLStatement = Select SelectStatement | OtherSQLStatement StatementType

fun statement_type :: "SQLStatement \<Rightarrow> StatementType" where
  "statement_type (Select _) = SELECT_STATEMENT"
| "statement_type (OtherSQLStatement t) = t"

subsection \<open>Table references\<close>

text \<open>\<open>ExtractedTable schema table context\<close>. The vector passed by reference is threaded
  through: each function takes it and returns it with the records appended.\<close>

datatype ExtractedTable = ExtractedTable string string string

function ExtractTablesFromQueryNode :: "QueryNode option \<Rightarrow> ExtractedTable list \<Rightarrow> ExtractedTable list"
  and ExtractTablesFromTableRef :: "TableRef option \<Rightarrow> ExtractedTable list \<Rightarrow> string \<Rightarrow> ExtractedTable list"
where
  "ExtractTablesFromQueryNode None tables = tables"
| "ExtractTablesFromQueryNode (Some node) tables =
     fold (\<lambda>cte ts.
             case snd cte of
               Some (CommonTableExpressionInfo (Some (SelectStatement n))) \<Rightarrow>
                 ExtractTablesFromQueryNode n ts
             | _ \<Rightarrow> ts)
          (cte_map node)
          (case node of
             SelectNode _ _ from_table _ _ \<Rightarrow>
               (if from_table \<noteq> None then ExtractTablesFromTableRef from_table tables ''FROM''
                else tables)
           | _ \<Rightarrow> tables)"
| "ExtractTablesFromTableRef None tables ctx = tables"
| "ExtractTablesFromTableRef (Some tref) tables ctx =
     (case tref of
        BaseTableRef schema_name table_name \<Rightarrow>
          tables @ [ExtractedTable schema_name table_name ctx]
      | JoinRef left right \<Rightarrow>
          ExtractTablesFromTableRef right (ExtractTablesFromTableRef left tables ctx) ''JOIN''
      | SubqueryRef subquery \<Rightarrow>
          (case subquery of
             Some (SelectStatement (Some n)) \<Rightarrow> ExtractTablesFromQueryNode (Some n) tables
           | _ \<Rightarrow> tables)
      | TableFunctionRef func \<Rightarrow>
          (case func of
             Some (FunctionExpression _ schema function_name _ _ _) \<Rightarrow>
               tables @ [ExtractedTable schema function_name ''TABLE_FUNCTION'']
           | _ \<Rightarrow> tables)
      | OtherTableRef \<Rightarrow> tables)"
  by pat_completeness auto
termination
proof -
  have cte_size: "Suc (size n) \<le> size node"
    if "(a, Some (CommonTableExpressionInfo (Some (SelectStatement (Some n))))) \<in> set (cte_map node)"
    for a n node
    using that
    by (cases node)
       (auto dest!: size_list_estimation'
          [where f = "size_prod (\<lambda>x. 0) (size_option size)" and y = "size n + 3"])
  show ?thesis
    by (relation "measure (\<lambda>x. case x of
            Inl (None, _) \<Rightarrow> 0 | Inl (Some n, _) \<Rightarrow> Suc (size n)
          | Inr (None, _, _) \<Rightarrow> 0 | Inr (Some t, _, _) \<Rightarrow> Suc (size t))")
       (auto simp: less_Suc_eq_le split: option.splits QueryNode.splits intro: cte_size)
qed

definition ExtractTablesFromStatement :: "SQLStatement option \<Rightarrow> ExtractedTable list \<Rightarrow> ExtractedTable list" where
  "ExtractTablesFromStatement stmt tables =
     (case stmt of
        None \<Rightarrow> tables
      | Some s \<Rightarrow>
          if statement_type s = SELECT_STATEMENT then
            (case s of
               Select (SelectStatement node) \<Rightarrow>
                 (if node \<noteq> None then ExtractTablesFromQueryNode node tables else tables)
             | _ \<Rightarrow> tables)
          else tables)"

text \<open>A chain of joins that is nested to the left: \<open>((base JOIN r1) JOIN r2) ...\<close>.\<close>

definition left_deep_joins :: "TableRef \<Rightarrow> TableRef list \<Rightarrow> TableRef" where
  "left_deep_joins base rights = foldl (\<lambda>l r. JoinRef (Some l) (Some r)) base rights"

text \<open>The statement that DuckDB's parser builds for
  \<^verbatim>\<open>SELECT * FROM a JOIN b ON a.x=b.x\<close>; the join condition is not a field the
  extractor reads.\<close>

definition select_from_a_join_b :: SQLStatement where
  "select_from_a_join_b =
     Select (SelectStatement (Some (SelectNode []
       [OtherExpression [] STAR CLASS_STAR]
       (Some (JoinRef (Some (BaseTableRef [] ''a'')) (Some (BaseTableRef [] ''b''))))
       None [])))"

subsection \<open>Function calls\<close>

text \<open>\<open>FunctionRef name type\<close>.\<close>

datatype FunctionRef = FunctionRef string string

function ExtractFunctionsFromExpression :: "ParsedExpression option \<Rightarrow> FunctionRef list \<Rightarrow> FunctionRef list" where
  "ExtractFunctionsFromExpression None functions = functions"
| "ExtractFunctionsFromExpression (Some expr) functions =
     (if expression_type expr = FUNCTION then
        (case expr of
           FunctionExpression _ _ function_name is_operator is_distinct children \<Rightarrow>
             fold (\<lambda>child fs. ExtractFunctionsFromExpression (Some child) fs) children
               (functions @
                  [FunctionRef function_name
                     (if is_operator then ''operator''
                      else if is_distinct then ''aggregate'' else ''scalar'')])
         | _ \<Rightarrow> functions)
      else functions)"
  by pat_completeness auto
termination
  by (relation "measure (\<lambda>(e, fs). case e of None \<Rightarrow> 0 | Some x \<Rightarrow> Suc (size x))")
     (auto simp: less_Suc_eq_le dest: size_list_estimation')

definition ExtractFunctionsFromQueryNode :: "QueryNode option \<Rightarrow> FunctionRef list \<Rightarrow> FunctionRef list" where
  "ExtractFunctionsFromQueryNode node functions =
     (case node of
        None \<Rightarrow> functions
      | Some (SelectNode _ select_list _ where_clause group_expressions) \<Rightarrow>
          (let functions1 =
                 fold (\<lambda>expr fs. ExtractFunctionsFromExpression (Some expr) fs) select_list functions;
               functions2 =
                 (if where_clause \<noteq> None
                  then ExtractFunctionsFromExpression where_clause functions1
                  else functions1)
           in fold (\<lambda>expr fs. ExtractFunctionsFromExpression (Some expr) fs)
                group_expressions functions2)
      | Some _ \<Rightarrow> functions)"

definition ExtractFunctionsFromStatement :: "SQLStatement option \<Rightarrow> FunctionRef list \<Rightarrow> FunctionRef list" where
  "ExtractFunctionsFromStatement stmt functions =
     (case stmt of
        None \<Rightarrow> functions
      | Some s \<Rightarrow>
          if statement_type s = SELECT_STATEMENT then
            (case s of
               Select (SelectStatement node) \<Rightarrow>
                 (if node \<noteq> None then ExtractFunctionsFromQueryNode node functions
                  else functions)
             | _ \<Rightarrow> functions)
          else functions)"

text \<open>The record that a function-call node yields.\<close>

fun function_ref :: "ParsedExpression \<Rightarrow> FunctionRef list" where
  "function_ref (FunctionExpression _ _ function_name is_operator is_distinct _) =
     [FunctionRef function_name
        (if is_operator then ''operator'' else if is_distinct then ''aggregate'' else ''scalar'')]"
| "function_ref _ = []"

text \<open>What claim C2 asks for: one record for every function-call node anywhere below an
  expression, in pre-order, also below the operands of a comparison and the members of a
  conjunction.\<close>

fun nested_calls :: "ParsedExpression \<Rightarrow> FunctionRef list" where
  "nested_calls (FunctionExpression a s function_name is_operator is_distinct children) =
     function_ref (FunctionExpression a s function_name is_operator is_distinct children)
       @ concat (map nested_calls children)"
| "nested_calls (ComparisonExpression _ _ left right) =
     (case left of None \<Rightarrow> [] | Some l \<Rightarrow> nested_calls l)
       @ (case right of None \<Rightarrow> [] | Some r \<Rightarrow> nested_calls r)"
| "nested_calls (ConjunctionExpression _ _ children) = concat (map nested_calls children)"
| "nested_calls _ = []"

text \<open>The calls that are reached from an expression through function calls only: the
  expression itself when it is a call, and then, for each reached call, its arguments.\<close>

fun argument_calls :: "ParsedExpression \<Rightarrow> FunctionRef list" where
  "argument_calls (FunctionExpression a s function_name is_operator is_distinct children) =
     function_ref (FunctionExpression a s function_name is_operator is_distinct children)
       @ concat (map argument_calls children)"
| "argument_calls _ = []"

text \<open>The statement for \<^verbatim>\<open>SELECT * FROM t WHERE upper(x) = 'A'\<close>: the call is the left
  operand of the comparison in the \<^verbatim>\<open>WHERE\<close> predicate.\<close>

definition where_upper_x :: ParsedExpression where
  "where_upper_x =
     ComparisonExpression [] COMPARE_EQUAL
       (Some (FunctionExpression [] [] ''upper'' False False [ColumnRefExpression [] ''x'']))
       (Some (ConstantExpression [] ''A''))"

definition select_where_upper :: SQLStatement where
  "select_where_upper =
     Select (SelectStatement (Some (SelectNode []
       [OtherExpression [] STAR CLASS_STAR]
       (Some (BaseTableRef [] ''t'')) (Some where_upper_x) [])))"

text \<open>The select node of \<^verbatim>\<open>SELECT lower(trim(a)), count(DISTINCT b) FROM t WHERE starts_with(c, 'x') GROUP BY lower(trim(a))\<close>.\<close>

definition lower_trim_a :: ParsedExpression where
  "lower_trim_a =
     FunctionExpression [] [] ''lower'' False False
       [FunctionExpression [] [] ''trim'' False False [ColumnRefExpression [] ''a'']]"

definition select_with_calls :: QueryNode where
  "select_with_calls =
     SelectNode []
       [lower_trim_a,
        FunctionExpression [] [] ''count'' False True [ColumnRefExpression [] ''b'']]
       (Some (BaseTableRef [] ''t''))
       (Some (FunctionExpression [] [] ''starts_with'' False False
                [ColumnRefExpression [] ''c'', ConstantExpression [] ''x'']))
       [lower_trim_a]"

subsection \<open>\<^verbatim>\<open>WHERE\<close> conditions\<close>

text \<open>\<open>WhereCondition column_name op value\<close>.\<close>

datatype WhereCondition = WhereCondition string string string

fun ComparisonTypeToOperator :: "ExpressionType \<Rightarrow> string" where
  "ComparisonTypeToOperator COMPARE_EQUAL = ''=''"
| "ComparisonTypeToOperator COMPARE_NOTEQUAL = ''!=''"
| "ComparisonTypeToOperator COMPARE_LESSTHAN = ''<''"
| "ComparisonTypeToOperator COMPARE_GREATERTHAN = ''>''"
| "ComparisonTypeToOperator COMPARE_LESSTHANOREQUALTO = ''<=''"
| "ComparisonTypeToOperator COMPARE_GREATERTHANOREQUALTO = ''>=''"
| "ComparisonTypeToOperator COMPARE_IN = ''IN''"
| "ComparisonTypeToOperator COMPARE_NOT_IN = ''NOT IN''"
| "ComparisonTypeToOperator _ = ''?''"

text \<open>\<^verbatim>\<open>ParsedExpression::ToString\<close> belongs to DuckDB and is the parameter \<open>ToString\<close>.
  A condition starts with empty strings, which stay where an operand is null.\<close>

function ExtractWhereConditions ::
  "(ParsedExpression \<Rightarrow> string) \<Rightarrow> ParsedExpression option \<Rightarrow> WhereCondition list \<Rightarrow> WhereCondition list"
where
  "ExtractWhereConditions ToString None conditions = conditions"
| "ExtractWhereConditions ToString (Some expr) conditions =
     (if expression_type expr = CONJUNCTION_AND \<or> expression_type expr = CONJUNCTION_OR then
        (case expr of
           ConjunctionExpression _ _ children \<Rightarrow>
             fold (\<lambda>child cs. ExtractWhereConditions ToString (Some child) cs) children conditions
         | _ \<Rightarrow> conditions)
      else if GetExpressionClass expr = CLASS_COMPARISON then
        (case expr of
           ComparisonExpression _ cmp_type left right \<Rightarrow>
             conditions @
               [WhereCondition
                  (case left of
                     Some l \<Rightarrow>
                       if expression_type l = COLUMN_REF
                       then (case l of ColumnRefExpression _ column_name \<Rightarrow> column_name | _ \<Rightarrow> [])
                       else ToString l
                   | None \<Rightarrow> [])
                  (ComparisonTypeToOperator cmp_type)
                  (case right of
                     Some r \<Rightarrow>
                       if expression_type r = VALUE_CONSTANT
                       then (case r of ConstantExpression _ v \<Rightarrow> v | _ \<Rightarrow> [])
                       else ToString r
                   | None \<Rightarrow> [])]
         | _ \<Rightarrow> conditions)
      else conditions)"
  by pat_completeness auto
termination
  by (relation "measure (\<lambda>(ts, e, cs). case e of None \<Rightarrow> 0 | Some x \<Rightarrow> Suc (size x))")
     (auto simp: less_Suc_eq_le dest: size_list_estimation')

record ParseWhereBindData =
  conditions :: "WhereCondition list"
  error :: string

definition ParseWhereBind ::
  "(string \<Rightarrow> SQLStatement list parse_result) \<Rightarrow> (ParsedExpression \<Rightarrow> string) \<Rightarrow> string
     \<Rightarrow> ParseWhereBindData"
where
  "ParseWhereBind ParseQuery ToString query =
     (case ParseQuery query of
        Parsed statements \<Rightarrow>
          \<lparr>conditions =
             fold (\<lambda>stmt cs.
                     if statement_type stmt = SELECT_STATEMENT then
                       (case stmt of
                          Select (SelectStatement (Some (SelectNode _ _ _ where_clause _))) \<Rightarrow>
                            (if where_clause \<noteq> None
                             then ExtractWhereConditions ToString where_clause cs else cs)
                        | _ \<Rightarrow> cs)
                     else cs)
                  statements [],
           error = []\<rparr>
      | ParserException what \<Rightarrow> \<lparr>conditions = [], error = what\<rparr>)"

text \<open>The record of a leaf comparison: the column name of a left operand that is a
  column reference and else its rendering, the operator, the value of a right operand
  that is a constant and else its rendering.\<close>

fun comparison_record :: "(ParsedExpression \<Rightarrow> string) \<Rightarrow> ParsedExpression \<Rightarrow> WhereCondition" where
  "comparison_record ToString (ComparisonExpression _ cmp_type left right) =
     WhereCondition
       (case left of
          None \<Rightarrow> []
        | Some (ColumnRefExpression _ column_name) \<Rightarrow> column_name
        | Some l \<Rightarrow> ToString l)
       (ComparisonTypeToOperator cmp_type)
       (case right of
          None \<Rightarrow> []
        | Some (ConstantExpression _ v) \<Rightarrow> v
        | Some r \<Rightarrow> ToString r)"
| "comparison_record ToString _ = WhereCondition [] [] []"

text \<open>The conditions of a predicate as the specification describes them: the members of
  \<^verbatim>\<open>AND\<close> and \<^verbatim>\<open>OR\<close> nodes are flattened in order, a comparison gives its record, any
  other node gives nothing.\<close>

fun leaf_conditions :: "(ParsedExpression \<Rightarrow> string) \<Rightarrow> ParsedExpression \<Rightarrow> WhereCondition list" where
  "leaf_conditions ToString (ConjunctionExpression _ _ children) =
     concat (map (leaf_conditions ToString) children)"
| "leaf_conditions ToString (ComparisonExpression a cmp_type left right) =
     [comparison_record ToString (ComparisonExpression a cmp_type left right)]"
| "leaf_conditions ToString _ = []"

text \<open>The number of comparisons at the leaves of the conjunction tree.\<close>

fun leaf_comparisons :: "ParsedExpression \<Rightarrow> nat" where
  "leaf_comparisons (ConjunctionExpression _ _ children) = sum_list (map leaf_comparisons children)"
| "leaf_comparisons (ComparisonExpression _ _ _ _) = 1"
| "leaf_comparisons _ = 0"

text \<open>The predicate of \<^verbatim>\<open>SELECT * FROM t WHERE x > 1 AND y = 2\<close>.\<close>

definition x_gt_1_and_y_eq_2 :: ParsedExpression where
  "x_gt_1_and_y_eq_2 =
     ConjunctionExpression [] CONJUNCTION_AND
       [ComparisonExpression [] COMPARE_GREATERTHAN
          (Some (ColumnRefExpression [] ''x'')) (Some (ConstantExpression [] ''1'')),
        ComparisonExpression [] COMPARE_EQUAL
          (Some (ColumnRefExpression [] ''y'')) (Some (ConstantExpression [] ''2''))]"

definition select_where_x_y :: SQLStatement where
  "select_where_x_y =
     Select (SelectStatement (Some (SelectNode []
       [OtherExpression [] STAR CLASS_STAR]
       (Some (BaseTableRef [] ''t'')) (Some x_gt_1_and_y_eq_2) [])))"

subsection \<open>Projected column names\<close>

text \<open>\<^verbatim>\<open>std::to_string\<close> of an index: its decimal digits.\<close>

definition digit_char :: "nat \<Rightarrow> char" where
  "digit_char d = ''0123456789'' ! d"

function to_string :: "nat \<Rightarrow> string" where
  "to_string n = (if n < 10 then [digit_char n] else to_string (n div 10) @ [digit_char (n mod 10)])"
  by pat_completeness auto
termination
  by (relation "measure id") auto

declare to_string.simps [simp del]

fun ExtractColumnNames :: "ParsedExpression option \<Rightarrow> nat \<Rightarrow> string list \<Rightarrow> string list" where
  "ExtractColumnNames None index names = names"
| "ExtractColumnNames (Some expr) index names =
     (if expression_alias expr \<noteq> [] then names @ [expression_alias expr]
      else if expression_type expr = COLUMN_REF then
        (case expr of ColumnRefExpression _ column_name \<Rightarrow> names @ [column_name] | _ \<Rightarrow> names)
      else if expression_type expr = FUNCTION then
        (case expr of
           FunctionExpression _ _ function_name _ _ _ \<Rightarrow> names @ [function_name]
         | _ \<Rightarrow> names)
      else names @ [''col'' @ to_string index])"

text \<open>The loop \<^verbatim>\<open>for (idx_t i = 0; i < snode.select_list.size(); i++)\<close> of
  \<^verbatim>\<open>ParseColumnsBind\<close>.\<close>

definition ExtractSelectListNames :: "ParsedExpression list \<Rightarrow> string list \<Rightarrow> string list" where
  "ExtractSelectListNames select_list col_names =
     fold (\<lambda>i names. ExtractColumnNames (Some (select_list ! i)) i names)
          [0 ..< length select_list] col_names"

record ParseColumnsBindData =
  col_names :: "string list"
  error :: string

text \<open>The statement index is a \<^verbatim>\<open>BIGINT\<close> argument, converted to the unsigned
  \<^verbatim>\<open>idx_t\<close>.\<close>

definition ParseColumnsBind ::
  "(string \<Rightarrow> SQLStatement list parse_result) \<Rightarrow> string \<Rightarrow> int \<Rightarrow> ParseColumnsBindData"
where
  "ParseColumnsBind ParseQuery query stmt_index_arg =
     (let stmt_index = nat (stmt_index_arg mod 2 ^ 64) in
      case ParseQuery query of
        Parsed statements \<Rightarrow>
          \<lparr>col_names =
             (if stmt_index < length statements then
                (let stmt = statements ! stmt_index in
                 if statement_type stmt = SELECT_STATEMENT then
                   (case stmt of
                      Select (SelectStatement (Some (SelectNode _ select_list _ _ _))) \<Rightarrow>
                        ExtractSelectListNames select_list []
                    | _ \<Rightarrow> [])
                 else [])
              else []),
           error = []\<rparr>
      | ParserException what \<Rightarrow> \<lparr>col_names = [], error = what\<rparr>)"

text \<open>The name of one select-list item by the order of precedence of the specification:
  the alias, the column name, the function name, \<^verbatim>\<open>col\<close> and the index.\<close>

fun projection_name :: "ParsedExpression \<Rightarrow> nat \<Rightarrow> string" where
  "projection_name expr index =
     (if expression_alias expr \<noteq> [] then expression_alias expr
      else case expr of
             ColumnRefExpression _ column_name \<Rightarrow> column_name
           | FunctionExpression _ _ function_name _ _ _ \<Rightarrow> function_name
           | _ \<Rightarrow> ''col'' @ to_string index)"

text \<open>The select list of \<^verbatim>\<open>SELECT a, b AS c, count(x) FROM t\<close>.\<close>

definition select_a_b_as_c_count_x :: SQLStatement where
  "select_a_b_as_c_count_x =
     Select (SelectStatement (Some (SelectNode []
       [ColumnRefExpression [] ''a'',
        ColumnRefExpression ''c'' ''b'',
        FunctionExpression [] [] ''count'' False False [ColumnRefExpression [] ''x'']]
       (Some (BaseTableRef [] ''t'')) None [])))"

subsection \<open>Splitting into statements\<close>

record ParseStatementsBindData =
  query :: string
  statements :: "SQLStatement list"
  error :: string

text \<open>\<^verbatim>\<open>ParseStatementsBind\<close>: the statements are moved out of the parser only when
  \<^verbatim>\<open>ParseQuery\<close> has returned; when it throws, the handler stores the message.\<close>

definition ParseStatementsBind ::
  "(string \<Rightarrow> SQLStatement list parse_result) \<Rightarrow> string \<Rightarrow> ParseStatementsBindData"
where
  "ParseStatementsBind ParseQuery input =
     (let result = \<lparr>query = input, statements = [], error = []\<rparr> in
      case ParseQuery (query result) of
        Parsed parser_statements \<Rightarrow> result\<lparr>statements := parser_statements\<rparr>
      | ParserException what \<Rightarrow> result\<lparr>error := what\<rparr>)"

text \<open>A row of \<^verbatim>\<open>parse_statements\<close>: \<open>stmt_index\<close>, \<open>stmt_type\<close>, \<open>error\<close>,
  \<open>param_count\<close>; \<open>None\<close> is the SQL \<^verbatim>\<open>NULL\<close>.\<close>

type_synonym statement_row = "int \<times> string option \<times> string option \<times> int"

text \<open>The \<^verbatim>\<open>while\<close> loop of \<^verbatim>\<open>ParseStatementsFunc\<close>; \<^verbatim>\<open>STANDARD_VECTOR_SIZE\<close> and
  \<^verbatim>\<open>StatementTypeToString\<close> belong to DuckDB and are parameters.\<close>

function ParseStatementsLoop ::
  "nat \<Rightarrow> (StatementType \<Rightarrow> string) \<Rightarrow> SQLStatement list \<Rightarrow> nat \<Rightarrow> nat \<Rightarrow> statement_row list
     \<Rightarrow> statement_row list \<times> nat"
where
  "ParseStatementsLoop STANDARD_VECTOR_SIZE StatementTypeToString stmts current_idx count output =
     (if current_idx < length stmts \<and> count < STANDARD_VECTOR_SIZE then
        ParseStatementsLoop STANDARD_VECTOR_SIZE StatementTypeToString stmts
          (current_idx + 1) (count + 1)
          (output @ [(int current_idx,
                      Some (StatementTypeToString (statement_type (stmts ! current_idx))),
                      None, 0)])
      else (output, current_idx))"
  by pat_completeness auto
termination
  by (relation "measure (\<lambda>(svs, ts, stmts, current_idx, count, output). length stmts - current_idx)")
     auto

declare ParseStatementsLoop.simps [simp del]

text \<open>One call of \<^verbatim>\<open>ParseStatementsFunc\<close>: the rows of the chunk it fills and the new
  \<^verbatim>\<open>current_idx\<close>.\<close>

definition ParseStatementsFunc ::
  "nat \<Rightarrow> (StatementType \<Rightarrow> string) \<Rightarrow> ParseStatementsBindData \<Rightarrow> nat \<Rightarrow> statement_row list \<times> nat"
where
  "ParseStatementsFunc STANDARD_VECTOR_SIZE StatementTypeToString bind_data current_idx =
     (if ParseStatementsBindData.error bind_data \<noteq> [] \<and> current_idx = 0
      then ([(0, None, Some (ParseStatementsBindData.error bind_data), 0)], current_idx + 1)
      else ParseStatementsLoop STANDARD_VECTOR_SIZE StatementTypeToString
             (statements bind_data) current_idx 0 [])"

text \<open>A parser that accepts one input, with two statements, and rejects every other input
  with a message.\<close>

definition example_parser :: "string \<Rightarrow> SQLStatement list parse_result" where
  "example_parser input =
     (if input = ''SELECT 1; DELETE FROM t''
      then Parsed [Select (SelectStatement (Some (SelectNode [] [ConstantExpression [] ''1''] None None []))),
                   OtherSQLStatement DELETE_STATEMENT]
      else ParserException ''Parser Error: syntax error'')"

section \<open>Tokenizer\<close>

text \<open>
  The lexer is DuckDB's \<^verbatim>\<open>Parser::Tokenize\<close>; it is a parameter that returns the tokens
  or throws. \<^verbatim>\<open>SimplifiedTokenType\<close> is DuckDB's enumeration and \<^verbatim>\<open>TokenType\<close> the one of
  tokenizer.h, with the same numbering.
\<close>

datatype SimplifiedTokenType =
    SIMPLIFIED_TOKEN_IDENTIFIER | SIMPLIFIED_TOKEN_NUMERIC_CONSTANT
  | SIMPLIFIED_TOKEN_STRING_CONSTANT | SIMPLIFIED_TOKEN_OPERATOR | SIMPLIFIED_TOKEN_KEYWORD
  | SIMPLIFIED_TOKEN_COMMENT | SIMPLIFIED_TOKEN_ERROR

datatype TokenType =
    TOKEN_IDENTIFIER | TOKEN_NUMERIC_CONSTANT | TOKEN_STRING_CONSTANT | TOKEN_OPERATOR
  | TOKEN_KEYWORD | TOKEN_COMMENT | TOKEN_ERROR



record SimplifiedToken =
  token_type :: SimplifiedTokenType
  start :: "64 word"

record Token =
  token_type :: TokenType
  start :: "64 word"

record TokenizeResult =
  tokens :: "Token list"
  count :: nat




text \<open>
  \<^verbatim>\<open>TokenizeSqlBind\<close> (parser.cpp) calls the lexer outside of any \<^verbatim>\<open>try\<close> block: an
  exception of the lexer leaves the function, \<open>Inl\<close> with its message.
\<close>

record TokenizeSqlBindData =
  query :: string
  tokens :: "SimplifiedToken list"

definition TokenizeSqlBind ::
  "(string \<Rightarrow> SimplifiedToken list parse_result) \<Rightarrow> string \<Rightarrow> string + TokenizeSqlBindData"
where
  "TokenizeSqlBind Tokenize input =
     (case Tokenize input of
        Parsed lexed \<Rightarrow> Inr \<lparr>query = input, tokens = lexed\<rparr>
      | ParserException what \<Rightarrow> Inl what)"








section \<open>Type signature serializer\<close>

text \<open>
  \<^verbatim>\<open>SerializeLogicalType\<close> (parser.c) writes into a caller's buffer of \<^verbatim>\<open>buf_size\<close> bytes
  with \<^verbatim>\<open>snprintf\<close>. The type descriptor is DuckDB's \<^verbatim>\<open>duckdb_logical_type\<close>, read through
  the C API; it is modelled by a datatype with the parts that the API calls return.
\<close>

datatype duckdb_type =
    DUCKDB_TYPE_INVALID | DUCKDB_TYPE_BOOLEAN | DUCKDB_TYPE_TINYINT | DUCKDB_TYPE_SMALLINT
  | DUCKDB_TYPE_INTEGER | DUCKDB_TYPE_BIGINT | DUCKDB_TYPE_UTINYINT | DUCKDB_TYPE_USMALLINT
  | DUCKDB_TYPE_UINTEGER | DUCKDB_TYPE_UBIGINT | DUCKDB_TYPE_FLOAT | DUCKDB_TYPE_DOUBLE
  | DUCKDB_TYPE_TIMESTAMP | DUCKDB_TYPE_DATE | DUCKDB_TYPE_TIME | DUCKDB_TYPE_INTERVAL
  | DUCKDB_TYPE_HUGEINT | DUCKDB_TYPE_UHUGEINT | DUCKDB_TYPE_VARCHAR | DUCKDB_TYPE_BLOB
  | DUCKDB_TYPE_DECIMAL | DUCKDB_TYPE_TIMESTAMP_S | DUCKDB_TYPE_TIMESTAMP_MS
  | DUCKDB_TYPE_TIMESTAMP_NS | DUCKDB_TYPE_ENUM | DUCKDB_TYPE_LIST | DUCKDB_TYPE_STRUCT
  | DUCKDB_TYPE_MAP | DUCKDB_TYPE_ARRAY | DUCKDB_TYPE_UUID | DUCKDB_TYPE_UNION | DUCKDB_TYPE_BIT
  | DUCKDB_TYPE_TIME_TZ | DUCKDB_TYPE_TIMESTAMP_TZ | DUCKDB_TYPE_ANY | DUCKDB_TYPE_SQLNULL
  | DUCKDB_TYPE_VARINT

fun TypeToString :: "duckdb_type \<Rightarrow> string" where
  "TypeToString DUCKDB_TYPE_BOOLEAN = ''BOOLEAN''"
| "TypeToString DUCKDB_TYPE_TINYINT = ''TINYINT''"
| "TypeToString DUCKDB_TYPE_SMALLINT = ''SMALLINT''"
| "TypeToString DUCKDB_TYPE_INTEGER = ''INTEGER''"
| "TypeToString DUCKDB_TYPE_BIGINT = ''BIGINT''"
| "TypeToString DUCKDB_TYPE_UTINYINT = ''UTINYINT''"
| "TypeToString DUCKDB_TYPE_USMALLINT = ''USMALLINT''"
| "TypeToString DUCKDB_TYPE_UINTEGER = ''UINTEGER''"
| "TypeToString DUCKDB_TYPE_UBIGINT = ''UBIGINT''"
| "TypeToString DUCKDB_TYPE_FLOAT = ''FLOAT''"
| "TypeToString DUCKDB_TYPE_DOUBLE = ''DOUBLE''"
| "TypeToString DUCKDB_TYPE_TIMESTAMP = ''TIMESTAMP''"
| "TypeToString DUCKDB_TYPE_DATE = ''DATE''"
| "TypeToString DUCKDB_TYPE_TIME = ''TIME''"
| "TypeToString DUCKDB_TYPE_INTERVAL = ''INTERVAL''"
| "TypeToString DUCKDB_TYPE_HUGEINT = ''HUGEINT''"
| "TypeToString DUCKDB_TYPE_UHUGEINT = ''UHUGEINT''"
| "TypeToString DUCKDB_TYPE_VARCHAR = ''VARCHAR''"
| "TypeToString DUCKDB_TYPE_BLOB = ''BLOB''"
| "TypeToString DUCKDB_TYPE_DECIMAL = ''DECIMAL''"
| "TypeToString DUCKDB_TYPE_TIMESTAMP_S = ''TIMESTAMP_S''"
| "TypeToString DUCKDB_TYPE_TIMESTAMP_MS = ''TIMESTAMP_MS''"
| "TypeToString DUCKDB_TYPE_TIMESTAMP_NS = ''TIMESTAMP_NS''"
| "TypeToString DUCKDB_TYPE_ENUM = ''ENUM''"
| "TypeToString DUCKDB_TYPE_LIST = ''LIST''"
| "TypeToString DUCKDB_TYPE_STRUCT = ''STRUCT''"
| "TypeToString DUCKDB_TYPE_MAP = ''MAP''"
| "TypeToString DUCKDB_TYPE_ARRAY = ''ARRAY''"
| "TypeToString DUCKDB_TYPE_UUID = ''UUID''"
| "TypeToString DUCKDB_TYPE_UNION = ''UNION''"
| "TypeToString DUCKDB_TYPE_BIT = ''BIT''"
| "TypeToString DUCKDB_TYPE_TIME_TZ = ''TIME_TZ''"
| "TypeToString DUCKDB_TYPE_TIMESTAMP_TZ = ''TIMESTAMP_TZ''"
| "TypeToString DUCKDB_TYPE_ANY = ''ANY''"
| "TypeToString DUCKDB_TYPE_SQLNULL = ''SQLNULL''"
| "TypeToString _ = ''UNKNOWN''"

text \<open>
  \<^item> \<open>DecimalType width scale\<close>, both \<^verbatim>\<open>uint8_t\<close>
  \<^item> \<open>ListType child\<close>
  \<^item> \<open>ArrayType child size\<close>, the size an \<^verbatim>\<open>idx_t\<close>
  \<^item> \<open>MapType key value\<close>
  \<^item> \<open>StructType children\<close> and \<open>UnionType members\<close>, each a list of names with types
  \<^item> \<open>EnumType dictionary\<close>
  \<^item> \<open>PlainType id\<close> for a type without parts, with the identifier that
    \<^verbatim>\<open>duckdb_get_type_id\<close> returns.
\<close>

datatype duckdb_logical_type =
    DecimalType "8 word" "8 word"
  | ListType duckdb_logical_type
  | ArrayType duckdb_logical_type "64 word"
  | MapType duckdb_logical_type duckdb_logical_type
  | StructType "(string \<times> duckdb_logical_type) list"
  | UnionType "(string \<times> duckdb_logical_type) list"
  | EnumType "string list"
  | PlainType duckdb_type

text \<open>Subtraction of \<^verbatim>\<open>size_t\<close> values, which wraps around.\<close>

definition size_t_minus :: "nat \<Rightarrow> nat \<Rightarrow> nat" where
  "size_t_minus a b = (if b \<le> a then a - b else 2 ^ 64 - (b - a))"

text \<open>
  \<^verbatim>\<open>offset += snprintf(buf + offset, buf_size - offset, ...)\<close> with the formatted text
  \<open>s\<close>: the state is the C string in \<^verbatim>\<open>buf\<close> and \<^verbatim>\<open>offset\<close>. \<^verbatim>\<open>snprintf\<close> writes at most
  its size argument less one characters and a NUL, nothing when the size is zero, and
  returns the full length of \<open>s\<close>. A write behind the NUL that ends the string in \<^verbatim>\<open>buf\<close>
  does not change that string. Beyond \<^verbatim>\<open>buf_size\<close> the size argument has wrapped around
  and the write is outside the buffer: the result is undefined, \<open>None\<close>.
\<close>

definition snprintf_at :: "nat \<Rightarrow> string \<times> nat \<Rightarrow> string \<Rightarrow> (string \<times> nat) option" where
  "snprintf_at buf_size st s =
     (case st of (buf, offset) \<Rightarrow>
        if offset > buf_size then None
        else if offset = buf_size \<or> offset > length buf then Some (buf, offset + length s)
        else Some (take offset buf @ take (buf_size - offset - 1) s, offset + length s))"

text \<open>A single \<^verbatim>\<open>snprintf(buf, buf_size, ...)\<close> into a buffer that holds nothing yet; with
  size zero the buffer would stay uninitialised.\<close>

definition snprintf_buf :: "nat \<Rightarrow> string \<Rightarrow> string option" where
  "snprintf_buf buf_size s = (if buf_size = 0 then None else Some (take (buf_size - 1) s))"

text \<open>The loop over the dictionary of an \<^verbatim>\<open>ENUM\<close>, from index \<open>i\<close> on.\<close>

fun enum_loop :: "nat \<Rightarrow> nat \<Rightarrow> string list \<Rightarrow> nat \<Rightarrow> string \<times> nat \<Rightarrow> (string \<times> nat) option" where
  "enum_loop buf_size dict_size [] i st = Some st"
| "enum_loop buf_size dict_size (val # vals) i st =
     (if i < dict_size \<and> i < 10 \<and> snd st < size_t_minus buf_size 20 then
        (case (if i > 0 then snprintf_at buf_size st '', '' else Some st) of
           None \<Rightarrow> None
         | Some st1 \<Rightarrow>
             (case snprintf_at buf_size st1 ([squote] @ val @ [squote]) of
                None \<Rightarrow> None
              | Some st2 \<Rightarrow> enum_loop buf_size dict_size vals (i + 1) st2))
      else Some st)"

text \<open>
  \<^verbatim>\<open>SerializeLogicalType\<close>, with the loop over the children of a \<^verbatim>\<open>STRUCT\<close> and the members
  of a \<^verbatim>\<open>UNION\<close> (the two loops are the same text) from index \<open>i\<close> on. The result is the C
  string left in \<^verbatim>\<open>buf\<close>.
\<close>

function SerializeLogicalType :: "duckdb_logical_type \<Rightarrow> nat \<Rightarrow> string option"
  and member_loop ::
    "nat \<Rightarrow> (string \<times> duckdb_logical_type) list \<Rightarrow> nat \<Rightarrow> string \<times> nat \<Rightarrow> (string \<times> nat) option"
where
  "SerializeLogicalType (DecimalType width scale) buf_size =
     snprintf_buf buf_size
       (''DECIMAL('' @ to_string (unat width) @ '','' @ to_string (unat scale) @ '')'')"
| "SerializeLogicalType (ListType child) buf_size =
     (case SerializeLogicalType child 512 of
        None \<Rightarrow> None
      | Some child_buf \<Rightarrow> snprintf_buf buf_size (child_buf @ ''[]''))"
| "SerializeLogicalType (ArrayType child array_size) buf_size =
     (case SerializeLogicalType child 512 of
        None \<Rightarrow> None
      | Some child_buf \<Rightarrow>
          snprintf_buf buf_size (child_buf @ ''['' @ to_string (unat array_size) @ '']''))"
| "SerializeLogicalType (MapType key val) buf_size =
     (case SerializeLogicalType key 256 of
        None \<Rightarrow> None
      | Some key_buf \<Rightarrow>
          (case SerializeLogicalType val 256 of
             None \<Rightarrow> None
           | Some val_buf \<Rightarrow>
               snprintf_buf buf_size (''MAP('' @ key_buf @ '', '' @ val_buf @ '')'')))"
| "SerializeLogicalType (StructType children) buf_size =
     (case snprintf_at buf_size ([], 0) ''STRUCT('' of
        None \<Rightarrow> None
      | Some st \<Rightarrow>
          (case member_loop buf_size children 0 st of
             None \<Rightarrow> None
           | Some st1 \<Rightarrow>
               (case snprintf_at buf_size st1 '')'' of
                  None \<Rightarrow> None
                | Some st2 \<Rightarrow> if buf_size = 0 then None else Some (fst st2))))"
| "SerializeLogicalType (UnionType members) buf_size =
     (case snprintf_at buf_size ([], 0) ''UNION('' of
        None \<Rightarrow> None
      | Some st \<Rightarrow>
          (case member_loop buf_size members 0 st of
             None \<Rightarrow> None
           | Some st1 \<Rightarrow>
               (case snprintf_at buf_size st1 '')'' of
                  None \<Rightarrow> None
                | Some st2 \<Rightarrow> if buf_size = 0 then None else Some (fst st2))))"
| "SerializeLogicalType (EnumType dictionary) buf_size =
     (let dict_size = length dictionary in
      case snprintf_at buf_size ([], 0) ''ENUM('' of
        None \<Rightarrow> None
      | Some st \<Rightarrow>
          (case enum_loop buf_size dict_size dictionary 0 st of
             None \<Rightarrow> None
           | Some st1 \<Rightarrow>
               (case (if dict_size > 10
                      then snprintf_at buf_size st1
                             ('', ... +'' @ to_string (dict_size - 10) @ '' more'')
                      else Some st1) of
                  None \<Rightarrow> None
                | Some st2 \<Rightarrow>
                    (case snprintf_at buf_size st2 '')'' of
                       None \<Rightarrow> None
                     | Some st3 \<Rightarrow> if buf_size = 0 then None else Some (fst st3)))))"
| "SerializeLogicalType (PlainType base_type) buf_size =
     snprintf_buf buf_size (TypeToString base_type)"
| "member_loop buf_size [] i st = Some st"
| "member_loop buf_size ((name, child) # rest) i st =
     (if snd st < size_t_minus buf_size 10 then
        (case (if i > 0 then snprintf_at buf_size st '', '' else Some st) of
           None \<Rightarrow> None
         | Some st1 \<Rightarrow>
             (case SerializeLogicalType child 256 of
                None \<Rightarrow> None
              | Some child_buf \<Rightarrow>
                  (case snprintf_at buf_size st1 (name @ '' '' @ child_buf) of
                     None \<Rightarrow> None
                   | Some st2 \<Rightarrow> member_loop buf_size rest (i + 1) st2)))
      else Some st)"
  by pat_completeness auto
termination
  by (relation "measure (\<lambda>x. case x of
          Inl (t, n) \<Rightarrow> size t
        | Inr (n, ms, i, st) \<Rightarrow> size_list (size_prod (\<lambda>_. 0) size) ms)")
     auto

text \<open>The callers \<^verbatim>\<open>ParseTypeFunc\<close> and \<^verbatim>\<open>ParseColumnTypesFunc\<close> pass a buffer of 1024
  bytes.\<close>

definition serialize_type :: "duckdb_logical_type \<Rightarrow> string option" where
  "serialize_type t = SerializeLogicalType t 1024"

subsection \<open>The rendering rules of the specification\<close>

fun join_with :: "string \<Rightarrow> string list \<Rightarrow> string" where
  "join_with sep [] = []"
| "join_with sep [x] = x"
| "join_with sep (x # y # ys) = x @ sep @ join_with sep (y # ys)"

fun canonical_type :: "duckdb_logical_type \<Rightarrow> string" where
  "canonical_type (DecimalType width scale) =
     ''DECIMAL('' @ to_string (unat width) @ '','' @ to_string (unat scale) @ '')''"
| "canonical_type (ListType child) = canonical_type child @ ''[]''"
| "canonical_type (ArrayType child n) = canonical_type child @ ''['' @ to_string (unat n) @ '']''"
| "canonical_type (MapType k v) = ''MAP('' @ canonical_type k @ '', '' @ canonical_type v @ '')''"
| "canonical_type (StructType children) =
     ''STRUCT('' @ join_with '', '' (map (\<lambda>(name, t). name @ '' '' @ canonical_type t) children) @ '')''"
| "canonical_type (UnionType members) =
     ''UNION('' @ join_with '', '' (map (\<lambda>(name, t). name @ '' '' @ canonical_type t) members) @ '')''"
| "canonical_type (EnumType dictionary) =
     ''ENUM('' @ join_with '', '' (map (\<lambda>v. [squote] @ v @ [squote]) (take 10 dictionary))
       @ (if length dictionary > 10
          then '', ... +'' @ to_string (length dictionary - 10) @ '' more'' else [])
       @ '')''"
| "canonical_type (PlainType base_type) = TypeToString base_type"

text \<open>The text that the member loop appends from index \<open>i\<close> on when nothing is cut:
  a separator before every member but the first, the name, a space, the type.\<close>

fun members_text :: "nat \<Rightarrow> (string \<times> duckdb_logical_type) list \<Rightarrow> string" where
  "members_text i [] = []"
| "members_text i ((name, t) # rest) =
     (if i > 0 then '', '' else []) @ name @ '' '' @ canonical_type t @ members_text (i + 1) rest"

text \<open>The text that the dictionary loop appends from index \<open>i\<close> on when nothing is cut:
  the values below index 10, quoted and separated.\<close>

fun enum_text :: "nat \<Rightarrow> string list \<Rightarrow> string" where
  "enum_text i [] = []"
| "enum_text i (v # vs) =
     (if i < 10 then (if i > 0 then '', '' else []) @ [squote] @ v @ [squote] @ enum_text (i + 1) vs
      else [])"

text \<open>
  The test before each turn of the loops, on the rendering by the rules: a member of a
  \<^verbatim>\<open>STRUCT\<close> or \<^verbatim>\<open>UNION\<close> is appended only while the text written so far, of length
  \<open>offset\<close>, is more than ten bytes short of the buffer, a value of an \<^verbatim>\<open>ENUM\<close> only while
  it is more than twenty bytes short.
\<close>

fun members_room :: "nat \<Rightarrow> nat \<Rightarrow> nat \<Rightarrow> (string \<times> duckdb_logical_type) list \<Rightarrow> bool" where
  "members_room n offset i [] = True"
| "members_room n offset i ((name, t) # rest) =
     (offset + 10 < n \<and>
      members_room n (offset + length (members_text i [(name, t)])) (i + 1) rest)"

fun values_room :: "nat \<Rightarrow> nat \<Rightarrow> nat \<Rightarrow> string list \<Rightarrow> bool" where
  "values_room n offset i [] = True"
| "values_room n offset i (v # vs) =
     (if i < 10
      then offset + 20 < n \<and> values_room n (offset + length (enum_text i [v])) (i + 1) vs
      else True)"

text \<open>
  A type whose renderings have room in the buffers of the code: the rendering is shorter
  than the buffer of \<open>n\<close> bytes, the loops of a \<^verbatim>\<open>STRUCT\<close>, \<^verbatim>\<open>UNION\<close> or \<^verbatim>\<open>ENUM\<close> pass their
  test before every member or value, and the parts have room in their buffers: 512 bytes
  for the element of a list or array, 256 for the key and the value of a map and for a
  member of a struct or union.
\<close>

fun has_room :: "duckdb_logical_type \<Rightarrow> nat \<Rightarrow> bool" where
  "has_room (DecimalType width scale) n = (length (canonical_type (DecimalType width scale)) < n)"
| "has_room (ListType child) n =
     (has_room child 512 \<and> length (canonical_type (ListType child)) < n)"
| "has_room (ArrayType child k) n =
     (has_room child 512 \<and> length (canonical_type (ArrayType child k)) < n)"
| "has_room (MapType k v) n =
     (has_room k 256 \<and> has_room v 256 \<and> length (canonical_type (MapType k v)) < n)"
| "has_room (StructType children) n =
     (list_all (\<lambda>(name, t). has_room t 256) children \<and>
      members_room n (length ''STRUCT('') 0 children \<and>
      length (canonical_type (StructType children)) < n)"
| "has_room (UnionType members) n =
     (list_all (\<lambda>(name, t). has_room t 256) members \<and>
      members_room n (length ''UNION('') 0 members \<and>
      length (canonical_type (UnionType members)) < n)"
| "has_room (EnumType dictionary) n =
     (values_room n (length ''ENUM('') 0 dictionary \<and>
      length (canonical_type (EnumType dictionary)) < n)"
| "has_room (PlainType base_type) n = (length (canonical_type (PlainType base_type)) < n)"

text \<open>A struct with one member, itself a struct of 25 integer columns \<^verbatim>\<open>c0\<close> to \<^verbatim>\<open>c24\<close>:
  the inner struct has no room in the 256 bytes of the member buffer.\<close>

definition wide_nested_struct :: duckdb_logical_type where
  "wide_nested_struct =
     StructType
       [(''s'', StructType (map (\<lambda>i. (''c'' @ to_string i, PlainType DUCKDB_TYPE_INTEGER))
                               [0 ..< 25]))]"

text \<open>The examples of the specification and a nested type with every kind of part.\<close>

definition list_of_integer :: duckdb_logical_type where
  "list_of_integer = ListType (PlainType DUCKDB_TYPE_INTEGER)"

definition map_varchar_integer :: duckdb_logical_type where
  "map_varchar_integer = MapType (PlainType DUCKDB_TYPE_VARCHAR) (PlainType DUCKDB_TYPE_INTEGER)"

definition nested_example :: duckdb_logical_type where
  "nested_example =
     StructType
       [(''id'', PlainType DUCKDB_TYPE_BIGINT),
        (''price'', DecimalType 18 3),
        (''tags'', ListType (PlainType DUCKDB_TYPE_VARCHAR)),
        (''pos'', ArrayType (PlainType DUCKDB_TYPE_DOUBLE) 3),
        (''attrs'', MapType (PlainType DUCKDB_TYPE_VARCHAR) (PlainType DUCKDB_TYPE_INTEGER)),
        (''u'', UnionType [(''n'', PlainType DUCKDB_TYPE_INTEGER), (''s'', PlainType DUCKDB_TYPE_VARCHAR)]),
        (''mood'', EnumType [''sad'', ''ok'', ''happy''])]"

definition twelve_values :: duckdb_logical_type where
  "twelve_values =
     EnumType [''a'', ''b'', ''c'', ''d'', ''e'', ''f'', ''g'', ''h'', ''i'', ''j'', ''k'', ''l'']"

text \<open>A struct of four members \<^verbatim>\<open>s0\<close> to \<^verbatim>\<open>s3\<close>, each a struct of twenty integer columns.\<close>

definition four_wide_members :: duckdb_logical_type where
  "four_wide_members =
     StructType (map (\<lambda>j. (''s'' @ to_string j,
                            StructType (map (\<lambda>i. (''c'' @ to_string i, PlainType DUCKDB_TYPE_INTEGER))
                                            [0 ..< 20])))
                     [0 ..< 4])"

section \<open>Properties of the comment stripper\<close>

text \<open>The loops are unfolded one iteration at a time, by the lemmas below, one for each
  state of the scanner.\<close>

declare SqlStripCommentsLoop.simps(2) [simp del] StripCommentsLoop.simps(2) [simp del]
  joins_marker.simps(2) [simp del] opens_comment.simps(2) [simp del]

lemma cpp_single:
  "SqlStripCommentsLoop lc bc st q [c] =
     (if lc then (if c = newline then [c] else []) else if bc then [] else [c])"
  by (simp add: SqlStripCommentsLoop.simps(2) Let_def)

lemma cpp_line:
  "SqlStripCommentsLoop True bc st q (c # rest) =
     (if c = newline then c # SqlStripCommentsLoop False bc st q rest
      else SqlStripCommentsLoop True bc st q rest)"
  by (simp add: SqlStripCommentsLoop.simps(2) Let_def)

lemma cpp_block:
  "SqlStripCommentsLoop False True st q (c # d # rest) =
     (if c = CHR ''*'' \<and> d = CHR ''/'' then SqlStripCommentsLoop False False st q rest
      else SqlStripCommentsLoop False True st q (d # rest))"
  by (simp add: SqlStripCommentsLoop.simps(2) Let_def)

lemma cpp_string:
  "SqlStripCommentsLoop False False True q (c # d # rest) =
     (if c = q then
        (if d = q then c # d # SqlStripCommentsLoop False False True q rest
         else c # SqlStripCommentsLoop False False False q (d # rest))
      else c # SqlStripCommentsLoop False False True q (d # rest))"
  by (simp add: SqlStripCommentsLoop.simps(2) Let_def)

lemma cpp_normal:
  "SqlStripCommentsLoop False False False q (c # d # rest) =
     (if c = CHR ''-'' \<and> d = CHR ''-'' then SqlStripCommentsLoop True False False q rest
      else if c = CHR ''/'' \<and> d = CHR ''*'' then SqlStripCommentsLoop False True False q rest
      else if c = squote \<or> c = dquote then c # SqlStripCommentsLoop False False True c (d # rest)
      else c # SqlStripCommentsLoop False False False q (d # rest))"
  by (simp add: SqlStripCommentsLoop.simps(2) Let_def)

lemma cpp_line2:
  "SqlStripCommentsLoop True bc st q (c # d # rest) =
     (if c = newline then c # SqlStripCommentsLoop False bc st q (d # rest)
      else SqlStripCommentsLoop True bc st q (d # rest))"
  by (rule cpp_line)

lemmas cpp_steps = cpp_single cpp_line2 cpp_block cpp_string cpp_normal

lemma c_single:
  "StripCommentsLoop lc bc st q [c] =
     (if lc then (if c = newline then [c] else []) else if bc then [] else [c])"
  by (simp add: StripCommentsLoop.simps(2) Let_def)

lemma c_line:
  "StripCommentsLoop True bc st q (c # rest) =
     (if c = newline then c # StripCommentsLoop False bc st q rest
      else StripCommentsLoop True bc st q rest)"
  by (simp add: StripCommentsLoop.simps(2) Let_def)

lemma c_block:
  "StripCommentsLoop False True st q (c # d # rest) =
     (if c = CHR ''*'' \<and> d = CHR ''/'' then StripCommentsLoop False False st q rest
      else StripCommentsLoop False True st q (d # rest))"
  by (simp add: StripCommentsLoop.simps(2) Let_def)

lemma c_string:
  "StripCommentsLoop False False True q (c # d # rest) =
     (if c = q then
        (if d = q then c # d # StripCommentsLoop False False True q rest
         else c # StripCommentsLoop False False False q (d # rest))
      else c # StripCommentsLoop False False True q (d # rest))"
  by (simp add: StripCommentsLoop.simps(2) Let_def)

lemma c_normal:
  "StripCommentsLoop False False False q (c # d # rest) =
     (if c = squote \<or> c = dquote then c # StripCommentsLoop False False True c (d # rest)
      else if c = CHR ''-'' \<and> d = CHR ''-'' then StripCommentsLoop True False False q rest
      else if c = CHR ''/'' \<and> d = CHR ''*'' then StripCommentsLoop False True False q rest
      else c # StripCommentsLoop False False False q (d # rest))"
  by (simp add: StripCommentsLoop.simps(2) Let_def)

lemma c_line2:
  "StripCommentsLoop True bc st q (c # d # rest) =
     (if c = newline then c # StripCommentsLoop False bc st q (d # rest)
      else StripCommentsLoop True bc st q (d # rest))"
  by (rule c_line)

lemmas c_steps = c_single c_line2 c_block c_string c_normal

text \<open>The two loops differ in the order of the quote and comment tests only; no
  character passes both, so they compute the same output from every state.\<close>

lemma loops_agree:
  "StripCommentsLoop lc bc st q t = SqlStripCommentsLoop lc bc st q t"
proof (induction t arbitrary: lc bc st q rule: induct_list012)
  case 1
  show ?case by simp
next
  case (2 c)
  show ?case by (simp add: cpp_single c_single)
next
  case (3 c d rest)
  show ?case
    by (cases lc; cases bc; cases st) (simp_all add: cpp_steps c_steps 3)
qed

lemma strip_subset: "set (SqlStripCommentsLoop lc bc st q t) \<subseteq> set t"
proof (induction t arbitrary: lc bc st q rule: induct_list012)
  case 1
  show ?case by simp
next
  case (2 c)
  show ?case by (auto simp add: cpp_single)
next
  case (3 c d rest)
  have a: "\<forall>lc bc st q. set (SqlStripCommentsLoop lc bc st q rest) \<subseteq> set rest"
    using 3(1) by blast
  have b: "\<forall>lc bc st q. set (SqlStripCommentsLoop lc bc st q (d # rest)) \<subseteq> set (d # rest)"
    using 3(2) by blast
  from a b show ?case
    by (cases lc; cases bc; cases st) (simp_all add: cpp_steps, blast+)
qed

lemma cpp_string_other:
  "c \<noteq> q \<Longrightarrow> SqlStripCommentsLoop False False True q (c # xs)
     = c # SqlStripCommentsLoop False False True q xs"
  by (simp add: SqlStripCommentsLoop.simps(2) Let_def)

lemma cpp_string_close:
  "xs = [] \<or> hd xs \<noteq> q \<Longrightarrow> SqlStripCommentsLoop False False True q (q # xs)
     = q # SqlStripCommentsLoop False False False q xs"
  by (simp add: SqlStripCommentsLoop.simps(2) Let_def)

lemma cpp_string_escaped:
  "SqlStripCommentsLoop False False True q (q # q # xs)
     = q # q # SqlStripCommentsLoop False False True q xs"
  by (simp add: SqlStripCommentsLoop.simps(2) Let_def)

lemma cpp_normal_plain:
  "\<not> (c = CHR ''-'' \<and> xs \<noteq> [] \<and> hd xs = CHR ''-'') \<Longrightarrow>
   \<not> (c = CHR ''/'' \<and> xs \<noteq> [] \<and> hd xs = CHR ''*'') \<Longrightarrow>
   SqlStripCommentsLoop False False False q (c # xs) =
     (if c = squote \<or> c = dquote then c # SqlStripCommentsLoop False False True c xs
      else c # SqlStripCommentsLoop False False False q xs)"
  by (cases xs) (auto simp add: SqlStripCommentsLoop.simps(2) Let_def)

text \<open>The scanner unfolded for the predicates \<^const>\<open>joins_marker\<close> and
  \<^const>\<open>opens_comment\<close>.\<close>

lemma joins_single:
  "joins_marker lc bc st q p [c] =
     (\<not> lc \<and> \<not> bc \<and> \<not> st \<and> c \<noteq> squote \<and> c \<noteq> dquote \<and>
      ((p = CHR ''-'' \<and> c = CHR ''-'') \<or> (p = CHR ''/'' \<and> c = CHR ''*'')))"
  by (auto simp add: joins_marker.simps(2) Let_def)

lemma joins_line:
  "joins_marker True bc st q p (c # rest) =
     (if c = newline then joins_marker False bc st q c rest
      else joins_marker True bc st q p rest)"
  by (simp add: joins_marker.simps(2) Let_def)

lemma joins_line2:
  "joins_marker True bc st q p (c # d # rest) =
     (if c = newline then joins_marker False bc st q c (d # rest)
      else joins_marker True bc st q p (d # rest))"
  by (rule joins_line)

lemma joins_block:
  "joins_marker False True st q p (c # d # rest) =
     (if c = CHR ''*'' \<and> d = CHR ''/'' then joins_marker False False st q p rest
      else joins_marker False True st q p (d # rest))"
  by (simp add: joins_marker.simps(2) Let_def)

lemma joins_string:
  "joins_marker False False True q p (c # d # rest) =
     (if c = q then
        (if d = q then joins_marker False False True q d rest
         else joins_marker False False False q c (d # rest))
      else joins_marker False False True q c (d # rest))"
  by (simp add: joins_marker.simps(2) Let_def)

lemma joins_normal:
  "joins_marker False False False q p (c # d # rest) =
     (if c = CHR ''-'' \<and> d = CHR ''-'' then joins_marker True False False q p rest
      else if c = CHR ''/'' \<and> d = CHR ''*'' then joins_marker False True False q p rest
      else if c = squote \<or> c = dquote then joins_marker False False True c c (d # rest)
      else (p = CHR ''-'' \<and> c = CHR ''-'') \<or> (p = CHR ''/'' \<and> c = CHR ''*'') \<or>
           joins_marker False False False q c (d # rest))"
  by (simp add: joins_marker.simps(2) Let_def)

lemmas joins_steps = joins_single joins_line2 joins_block joins_string joins_normal

lemma opens_plain_single:
  "opens_comment st q [c] = False"
  by (simp add: opens_comment.simps(2) Let_def)

lemma opens_plain_pair:
  "p \<noteq> squote \<Longrightarrow> p \<noteq> dquote \<Longrightarrow>
   opens_comment False q (p # c # xs) =
     ((p = CHR ''-'' \<and> c = CHR ''-'') \<or> (p = CHR ''/'' \<and> c = CHR ''*'') \<or>
      opens_comment False q (c # xs))"
  by (auto simp add: opens_comment.simps(2) [of _ _ p] Let_def)

lemma opens_quote:
  "c = squote \<or> c = dquote \<Longrightarrow> opens_comment False q (c # xs) = opens_comment True c xs"
  by (auto simp add: opens_comment.simps(2) [of _ _ c] Let_def)

lemma opens_closing_pair:
  "opens_comment True q (q # c # xs) =
     (if c = q then opens_comment True q xs else opens_comment False q (c # xs))"
  by (simp add: opens_comment.simps(2) [of _ _ q] Let_def)

lemma opens_in_string:
  "c \<noteq> q \<Longrightarrow> opens_comment True q (c # xs) = opens_comment True q xs"
  by (simp add: opens_comment.simps(2) [of _ _ c] Let_def)

lemma opens_normal:
  "opens_comment False q (c # d # rest) =
     (if c = CHR ''-'' \<and> d = CHR ''-'' then True
      else if c = CHR ''/'' \<and> d = CHR ''*'' then True
      else if c = squote \<or> c = dquote then opens_comment True c (d # rest)
      else opens_comment False q (d # rest))"
  by (simp add: opens_comment.simps(2) [of _ _ c] Let_def)

lemma opens_string:
  "opens_comment True q (c # d # rest) =
     (if c = q then
        (if d = q then opens_comment True q rest
         else opens_comment False q (d # rest))
      else opens_comment True q (d # rest))"
  by (simp add: opens_comment.simps(2) [of _ _ c] Let_def)

text \<open>A second pass over the output returns it unchanged exactly when it enters no comment;
  and it enters one exactly when the first pass has appended \<^verbatim>\<open>-\<close> behind \<^verbatim>\<open>-\<close> or
  \<^verbatim>\<open>*\<close> behind \<^verbatim>\<open>/\<close> outside a string literal. In \<open>rescan\<close> the second pass has still to
  read the character \<open>p\<close> that the first pass appended last.\<close>

lemma strip_length: "length (SqlStripCommentsLoop lc bc st q t) \<le> length t"
proof (induction t arbitrary: lc bc st q rule: induct_list012)
  case 1
  show ?case by simp
next
  case (2 c)
  show ?case by (simp add: cpp_single)
next
  case (3 c d rest)
  have a: "\<forall>lc bc st q. length (SqlStripCommentsLoop lc bc st q rest) \<le> length rest"
    using 3(1) by blast
  have b: "\<forall>lc bc st q. length (SqlStripCommentsLoop lc bc st q (d # rest)) \<le> Suc (length rest)"
    using 3(2) by simp
  from a b show ?case
    by (cases lc; cases bc; cases st) (simp_all add: cpp_steps le_SucI)
qed

lemma strip_shorter:
  "SqlStripCommentsLoop lc bc st q rest \<noteq> c # d # rest"
proof
  assume "SqlStripCommentsLoop lc bc st q rest = c # d # rest"
  then have "length (SqlStripCommentsLoop lc bc st q rest) = Suc (Suc (length rest))" by simp
  with strip_length [of lc bc st q rest] show False by simp
qed

lemma strip_fixpoint:
  "(SqlStripCommentsLoop False False st q u = u) = (\<not> opens_comment st q u)"
proof (induction u arbitrary: st q rule: induct_list012)
  case 1
  show ?case by simp
next
  case (2 c)
  show ?case by (simp add: cpp_single opens_plain_single)
next
  case (3 c d rest)
  show ?case
    by (cases st) (simp_all add: cpp_steps opens_normal opens_string strip_shorter 3)
qed


lemma rescan:
  "(p \<noteq> squote \<and> p \<noteq> dquote \<longrightarrow>
      opens_comment False q1 (p # SqlStripCommentsLoop lc bc False q0 t)
        = joins_marker lc bc False q0 p t) \<and>
   (q = squote \<or> q = dquote \<longrightarrow>
      opens_comment True q (q # SqlStripCommentsLoop lc bc False q0 t)
        = joins_marker lc bc False q0 q t) \<and>
   (q = squote \<or> q = dquote \<longrightarrow>
      opens_comment True q (SqlStripCommentsLoop False False True q t)
        = joins_marker False False True q p t)"
proof (induction t arbitrary: lc bc q0 q1 p q rule: induct_list012)
  case 1
  show ?case by (simp add: opens_plain_single)
next
  case (2 c)
  show ?case
    by (auto simp add: cpp_single joins_single opens_plain_single opens_plain_pair
          opens_closing_pair)
next
  case (3 c d rest)
  have n1: "\<And>lc bc q0 q1 p. p \<noteq> squote \<Longrightarrow> p \<noteq> dquote \<Longrightarrow>
      opens_comment False q1 (p # SqlStripCommentsLoop lc bc False q0 rest)
        = joins_marker lc bc False q0 p rest"
    using 3(1) by blast
  have n2: "\<And>lc bc q0 q1 p. p \<noteq> squote \<Longrightarrow> p \<noteq> dquote \<Longrightarrow>
      opens_comment False q1 (p # SqlStripCommentsLoop lc bc False q0 (d # rest))
        = joins_marker lc bc False q0 p (d # rest)"
    using 3(2) by blast
  have c1: "\<And>lc bc q0 q. q = squote \<or> q = dquote \<Longrightarrow>
      opens_comment True q (q # SqlStripCommentsLoop lc bc False q0 rest)
        = joins_marker lc bc False q0 q rest"
    using 3(1) by blast
  have c2: "\<And>lc bc q0 q. q = squote \<or> q = dquote \<Longrightarrow>
      opens_comment True q (q # SqlStripCommentsLoop lc bc False q0 (d # rest))
        = joins_marker lc bc False q0 q (d # rest)"
    using 3(2) by blast
  have s1: "\<And>q p. q = squote \<or> q = dquote \<Longrightarrow>
      opens_comment True q (SqlStripCommentsLoop False False True q rest)
        = joins_marker False False True q p rest"
    using 3(1) by blast
  have s2: "\<And>q p. q = squote \<or> q = dquote \<Longrightarrow>
      opens_comment True q (SqlStripCommentsLoop False False True q (d # rest))
        = joins_marker False False True q p (d # rest)"
    using 3(2) by blast
  have kn: "p \<noteq> squote \<and> p \<noteq> dquote \<longrightarrow>
      opens_comment False q1 (p # SqlStripCommentsLoop lc bc False q0 (c # d # rest))
        = joins_marker lc bc False q0 p (c # d # rest)"
    by (cases lc; cases bc)
       (simp_all add: cpp_steps joins_steps opens_plain_pair opens_quote n1 n2 s2)
  have kq: "q = squote \<or> q = dquote \<longrightarrow>
      opens_comment True q (q # SqlStripCommentsLoop lc bc False q0 (c # d # rest))
        = joins_marker lc bc False q0 q (c # d # rest)"
    by (cases lc; cases bc)
       (simp_all add: cpp_steps joins_steps opens_closing_pair opens_quote n2 c1 c2 s2)
  have ks: "q = squote \<or> q = dquote \<longrightarrow>
      opens_comment True q (SqlStripCommentsLoop False False True q (c # d # rest))
        = joins_marker False False True q p (c # d # rest)"
  proof
    assume qq: "q = squote \<or> q = dquote"
    show "opens_comment True q (SqlStripCommentsLoop False False True q (c # d # rest))
            = joins_marker False False True q p (c # d # rest)"
    proof (cases "c = q")
      case False
      with s2 [OF qq, of c] show ?thesis
        by (simp add: cpp_string joins_string opens_in_string)
    next
      case cq: True
      show ?thesis
      proof (cases "d = q")
        case True
        with cq s1 [OF qq, of q] show ?thesis
          by (simp add: cpp_string joins_string opens_closing_pair)
      next
        case False
        with cq c2 [OF qq, of False False q] show ?thesis
          by (simp add: cpp_string joins_string)
      qed
    qed
  qed
  from kn kq ks show ?case by blast
qed

lemma take_strlen: "take (strlen sql) sql = takeWhile (\<lambda>c. c \<noteq> NUL) sql"
  unfolding strlen_def by (rule takeWhile_eq_take [symmetric])

lemma strlen_no_NUL: "NUL \<notin> set sql \<Longrightarrow> take (strlen sql) sql = sql"
  unfolding take_strlen by (auto simp add: takeWhile_eq_all_conv)

lemma StripComments_cpp:
  "StripComments sql = SqlStripCommentsFunc (take (strlen sql) sql)"
  by (simp add: StripComments_def SqlStripCommentsFunc_def loops_agree)

lemma SqlStripCommentsFunc_no_NUL:
  "NUL \<notin> set t \<Longrightarrow> NUL \<notin> set (SqlStripCommentsFunc t)"
  unfolding SqlStripCommentsFunc_def using strip_subset by blast


lemma opens_skip:
  "p \<noteq> squote \<Longrightarrow> p \<noteq> dquote \<Longrightarrow> p \<noteq> CHR ''-'' \<Longrightarrow> p \<noteq> CHR ''/'' \<Longrightarrow>
   opens_comment False q (p # xs) = opens_comment False q xs"
  by (cases xs) (simp_all add: opens_plain_single opens_plain_pair)

lemma strip_idem_cpp:
  "(SqlStripCommentsFunc (SqlStripCommentsFunc t) = SqlStripCommentsFunc t)
     = (\<not> joins_comment_marker t)"
proof -
  let ?out = "SqlStripCommentsLoop False False False NUL t"
  have "opens_comment False NUL (NUL # ?out) = joins_marker False False False NUL NUL t"
    using rescan [of NUL NUL False False NUL t] by simp
  then have "opens_comment False NUL ?out = joins_marker False False False NUL NUL t"
    by (simp add: opens_skip)
  then show ?thesis
    unfolding SqlStripCommentsFunc_def joins_comment_marker_def
    by (simp add: strip_fixpoint)
qed

lemma strip_idem_c:
  "(StripComments (StripComments t) = StripComments t)
     = (\<not> joins_comment_marker (take (strlen t) t))"
proof -
  let ?u = "take (strlen t) t"
  have "NUL \<notin> set ?u" unfolding take_strlen by (auto dest: set_takeWhileD)
  then have "NUL \<notin> set (SqlStripCommentsFunc ?u)" by (rule SqlStripCommentsFunc_no_NUL)
  then have "take (strlen (SqlStripCommentsFunc ?u)) (SqlStripCommentsFunc ?u) = SqlStripCommentsFunc ?u"
    by (rule strlen_no_NUL)
  then show ?thesis
    using strip_idem_cpp [of ?u] by (simp add: StripComments_cpp)
qed

text \<open>
  Claim C1, as stated, fails: removing a block comment joins the characters on its two
  sides, and \<^verbatim>\<open>-/**/-\<close> is stripped to \<^verbatim>\<open>--\<close>, which a second pass takes for a
  line comment and removes.
\<close>

theorem strip_comments_not_idempotent:
  "SqlStripCommentsFunc (SqlStripCommentsFunc ''-/**/-'') \<noteq> SqlStripCommentsFunc ''-/**/-'' \<and>
   StripComments (StripComments ''-/**/-'') \<noteq> StripComments ''-/**/-''"
  by (simp add: SqlStripCommentsFunc_def StripComments_def strlen_def cpp_steps c_steps)

text \<open>
  Claim C1, amended: stripping the output of \<^verbatim>\<open>strip_comments\<close> again returns that output
  unchanged exactly for the inputs on which the scanner never appends, outside a string
  literal, a \<^verbatim>\<open>-\<close> right behind a \<^verbatim>\<open>-\<close> or a \<^verbatim>\<open>*\<close> right behind a \<^verbatim>\<open>/\<close>, as it does
  for \<^verbatim>\<open>-/**/-\<close>; on every other input the second pass changes the output. This holds
  for the C++ function and, on the C string that \<^verbatim>\<open>sql\<close> denotes, for the C one.
\<close>

theorem strip_comments_idempotent_unless_marker_joined:
  "(SqlStripCommentsFunc (SqlStripCommentsFunc T) = SqlStripCommentsFunc T)
     = (\<not> joins_comment_marker T) \<and>
   (StripComments (StripComments T) = StripComments T)
     = (\<not> joins_comment_marker (take (strlen T) T))"
  using strip_idem_cpp strip_idem_c by blast

lemma two_comments_example_stripped:
  "SqlStripCommentsFunc two_comments_example = ''SELECT  1 '' @ [newline] @ ''FROM t''"
  by (simp add: two_comments_example_def SqlStripCommentsFunc_def cpp_steps)

lemma two_comments_example_joins_none:
  "\<not> joins_comment_marker two_comments_example"
  by (simp add: two_comments_example_def joins_comment_marker_def joins_steps)

lemma joins_marker_example: "joins_comment_marker ''-/**/-''"
  by (simp add: joins_comment_marker_def joins_steps)

theorem strip_comments_idempotent_unless_marker_joined_witness:
  "\<not> joins_comment_marker two_comments_example \<and>
   SqlStripCommentsFunc two_comments_example = ''SELECT  1 '' @ [newline] @ ''FROM t'' \<and>
   SqlStripCommentsFunc (SqlStripCommentsFunc two_comments_example)
     = SqlStripCommentsFunc two_comments_example \<and>
   joins_comment_marker ''-/**/-'' \<and>
   SqlStripCommentsFunc (SqlStripCommentsFunc ''-/**/-'') \<noteq> SqlStripCommentsFunc ''-/**/-''"
  using strip_comments_idempotent_unless_marker_joined [of two_comments_example]
    strip_comments_idempotent_unless_marker_joined [of "''-/**/-''"]
    two_comments_example_joins_none joins_marker_example two_comments_example_stripped
  by blast

lemma in_string_body:
  "doubled_quotes_only q body \<Longrightarrow> rest = [] \<or> hd rest \<noteq> q \<Longrightarrow>
   SqlStripCommentsLoop False False True q (body @ q # rest)
     = body @ q # SqlStripCommentsLoop False False False q rest"
proof (induction q body rule: doubled_quotes_only.induct)
  case (1 q)
  then show ?case by (simp add: cpp_string_close)
next
  case (2 q c)
  then show ?case by (simp add: cpp_string_other cpp_string_close)
next
  case (3 q c d rest')
  show ?case
  proof (cases "c = q")
    case True
    with 3 show ?thesis by (simp add: cpp_string_escaped)
  next
    case False
    with 3 show ?thesis by (simp add: cpp_string_other)
  qed
qed

lemma literal_cpp:
  assumes "q = squote \<or> q = dquote" "doubled_quotes_only q body" "rest = [] \<or> hd rest \<noteq> q"
  shows "SqlStripCommentsLoop False False False q0 (q # body @ q # rest)
           = q # body @ q # SqlStripCommentsLoop False False False q rest"
proof -
  have "SqlStripCommentsLoop False False False q0 (q # body @ q # rest)
          = q # SqlStripCommentsLoop False False True q (body @ q # rest)"
    using assms(1) by (subst cpp_normal_plain) auto
  then show ?thesis using in_string_body [OF assms(2,3)] by simp
qed

text \<open>
  Claim C3: in the \<^verbatim>\<open>in_string\<close> state both strippers copy every character; a quote
  character followed by the same character is an escaped quote, both are copied and the
  state stays; a quote character that is not doubled is copied and ends the literal.
  Hence a literal that opens in the normal state and whose body holds its quote
  character only doubled is copied whole, and scanning goes on in the normal state
  behind it. In particular \<^verbatim>\<open>SELECT '--not a comment'\<close> is left untouched.
\<close>

theorem strip_comments_keeps_string_literals:
  "(c \<noteq> q \<longrightarrow>
      SqlStripCommentsLoop False False True q (c # rest)
        = c # SqlStripCommentsLoop False False True q rest \<and>
      StripCommentsLoop False False True q (c # rest)
        = c # StripCommentsLoop False False True q rest) \<and>
   SqlStripCommentsLoop False False True q (q # q # rest)
     = q # q # SqlStripCommentsLoop False False True q rest \<and>
   StripCommentsLoop False False True q (q # q # rest)
     = q # q # StripCommentsLoop False False True q rest \<and>
   (rest = [] \<or> hd rest \<noteq> q \<longrightarrow>
      SqlStripCommentsLoop False False True q (q # rest)
        = q # SqlStripCommentsLoop False False False q rest \<and>
      StripCommentsLoop False False True q (q # rest)
        = q # StripCommentsLoop False False False q rest) \<and>
   ((q = squote \<or> q = dquote) \<and> doubled_quotes_only q body \<and> (rest = [] \<or> hd rest \<noteq> q) \<longrightarrow>
      SqlStripCommentsLoop False False False q0 (q # body @ q # rest)
        = q # body @ q # SqlStripCommentsLoop False False False q rest \<and>
      StripCommentsLoop False False False q0 (q # body @ q # rest)
        = q # body @ q # StripCommentsLoop False False False q rest) \<and>
   SqlStripCommentsFunc select_not_a_comment = select_not_a_comment \<and>
   StripComments select_not_a_comment = select_not_a_comment"
proof -
  have ex: "SqlStripCommentsFunc select_not_a_comment = select_not_a_comment"
    by (simp add: select_not_a_comment_def SqlStripCommentsFunc_def cpp_steps)
  have "NUL \<notin> set select_not_a_comment" by (simp add: select_not_a_comment_def)
  then have "StripComments select_not_a_comment = select_not_a_comment"
    using ex by (simp add: StripComments_cpp strlen_no_NUL)
  with ex show ?thesis
    by (simp add: loops_agree cpp_string_other cpp_string_escaped cpp_string_close literal_cpp)
qed

theorem strip_comments_keeps_string_literals_witness:
  "CHR ''a'' \<noteq> squote \<and>
   SqlStripCommentsLoop False False True squote (CHR ''a'' # [squote, CHR '';''])
     = CHR ''a'' # SqlStripCommentsLoop False False True squote [squote, CHR '';''] \<and>
   hd [CHR '';''] \<noteq> squote \<and>
   SqlStripCommentsLoop False False True squote (squote # [CHR '';''])
     = squote # SqlStripCommentsLoop False False False squote [CHR '';''] \<and>
   doubled_quotes_only squote (''it'' @ [squote, squote] @ ''s --'') \<and>
   SqlStripCommentsLoop False False False NUL
       (squote # (''it'' @ [squote, squote] @ ''s --'') @ squote # [CHR '';''])
     = squote # (''it'' @ [squote, squote] @ ''s --'') @ squote #
         SqlStripCommentsLoop False False False squote [CHR '';'']"
  using strip_comments_keeps_string_literals
          [of "CHR ''a''" squote "[squote, CHR '';'']" "''it'' @ [squote, squote] @ ''s --''" NUL]
        strip_comments_keeps_string_literals
          [of "CHR ''a''" squote "[CHR '';'']" "''it'' @ [squote, squote] @ ''s --''" NUL]
  by simp

text \<open>
  Claim C10, as stated, fails on an input with a NUL byte: \<^verbatim>\<open>SqlStripCommentsFunc\<close> scans
  the whole \<^verbatim>\<open>std::string\<close>, \<^verbatim>\<open>StripComments\<close> stops at the first NUL.
\<close>

theorem strip_comments_differ_behind_NUL:
  "SqlStripCommentsFunc nul_byte_example = ''a'' @ [NUL, newline] @ ''c'' \<and>
   StripComments nul_byte_example = ''a'' \<and>
   StripComments nul_byte_example \<noteq> SqlStripCommentsFunc nul_byte_example"
  by (simp add: nul_byte_example_def SqlStripCommentsFunc_def StripComments_def strlen_def
        cpp_steps c_steps)

text \<open>
  Claim C10, amended: the loops of the C++ and the C stripper produce the same output from
  every state and on every input, in whichever order they test for quotes and comments;
  \<^verbatim>\<open>StripComments\<close> reads its argument up to the first NUL, so on every input it returns
  what the C++ function returns on the bytes before the first NUL, and the two functions
  agree on every input that holds no NUL byte.
\<close>

theorem strip_comments_implementations_agree:
  "StripCommentsLoop lc bc st q t = SqlStripCommentsLoop lc bc st q t \<and>
   StripComments sql = SqlStripCommentsFunc (take (strlen sql) sql) \<and>
   (NUL \<notin> set sql \<longrightarrow> StripComments sql = SqlStripCommentsFunc sql)"
  by (simp add: loops_agree StripComments_cpp strlen_no_NUL)

theorem strip_comments_implementations_agree_witness:
  "NUL \<notin> set select_not_a_comment \<and>
   StripComments select_not_a_comment = SqlStripCommentsFunc select_not_a_comment"
proof -
  have h: "NUL \<notin> set select_not_a_comment"
    by (simp add: select_not_a_comment_def)
  with strip_comments_implementations_agree [of False False False NUL "[]" select_not_a_comment]
  show ?thesis by blast
qed

section \<open>Properties of the extractors\<close>

lemma fold_append_acc:
  assumes "\<And>x ts. x \<in> set xs \<Longrightarrow> h x ts = ts @ h x []"
  shows "fold h xs acc = acc @ concat (map (\<lambda>x. h x []) xs)"
  using assms
proof (induction xs arbitrary: acc)
  case Nil
  show ?case by simp
next
  case (Cons x xs)
  have ih: "fold h xs (h x acc) = h x acc @ concat (map (\<lambda>x. h x []) xs)"
    by (rule Cons.IH) (rule Cons.prems, simp)
  have hx: "h x acc = acc @ h x []"
    by (rule Cons.prems) simp
  show ?case
    by (simp add: ih) (simp add: hx)
qed

declare ExtractTablesFromQueryNode.simps(2) [simp del] ExtractTablesFromTableRef.simps(2) [simp del]

lemma tables_append_aux:
  "\<forall>acc. ExtractTablesFromQueryNode n acc = acc @ ExtractTablesFromQueryNode n []"
  "\<forall>acc. ExtractTablesFromTableRef t acc ctx = acc @ ExtractTablesFromTableRef t [] ctx"
proof (induction n "u :: ExtractedTable list" and t "v :: ExtractedTable list" ctx rule: ExtractTablesFromQueryNode_ExtractTablesFromTableRef.induct)
  case (1 tables)
  show ?case by simp
next
  case (2 node tables)
  let ?h = "\<lambda>cte ts. case snd cte of
               Some (CommonTableExpressionInfo (Some (SelectStatement n))) \<Rightarrow>
                 ExtractTablesFromQueryNode n ts
             | _ \<Rightarrow> ts"
  have h: "?h x ts = ts @ ?h x []" if "x \<in> set (cte_map node)" for x ts
  proof (cases "snd x")
    case None
    then show ?thesis by simp
  next
    case (Some info)
    obtain q where info: "info = CommonTableExpressionInfo q" by (cases info)
    show ?thesis
    proof (cases q)
      case None
      with Some info show ?thesis by simp
    next
      case (Some stmt)
      obtain n where stmt: "stmt = SelectStatement n" by (cases stmt)
      from 2(2) [OF that \<open>snd x = Some info\<close> info Some stmt]
      have "ExtractTablesFromQueryNode n ts = ts @ ExtractTablesFromQueryNode n []"
        by blast
      with \<open>snd x = Some info\<close> info Some stmt show ?thesis
        by (simp only: option.case CommonTableExpressionInfo.case SelectStatement.case)
    qed
  qed
  have from_part: "(case node of
             SelectNode _ _ from_table _ _ \<Rightarrow>
               (if from_table \<noteq> None then ExtractTablesFromTableRef from_table acc ''FROM''
                else acc)
           | _ \<Rightarrow> acc) = acc @ (case node of
             SelectNode _ _ from_table _ _ \<Rightarrow>
               (if from_table \<noteq> None then ExtractTablesFromTableRef from_table [] ''FROM''
                else [])
           | _ \<Rightarrow> [])" for acc
  proof (cases node)
    case (SelectNode m sl ft wh grp)
    show ?thesis
    proof (cases ft)
      case None
      with SelectNode show ?thesis by simp
    next
      case (Some t)
      from 2(1) [OF SelectNode] Some
      have "ExtractTablesFromTableRef ft acc ''FROM'' = acc @ ExtractTablesFromTableRef ft [] ''FROM''"
        by blast
      with SelectNode Some show ?thesis
        by (simp only: QueryNode.case if_True option.distinct not_False_eq_True)
    qed
  next
    case (OtherQueryNode m)
    then show ?thesis by simp
  qed
  show ?case
  proof
    fix acc
    let ?from = "\<lambda>acc. case node of
             SelectNode _ _ from_table _ _ \<Rightarrow>
               (if from_table \<noteq> None then ExtractTablesFromTableRef from_table acc ''FROM''
                else acc)
           | _ \<Rightarrow> acc"
    have "ExtractTablesFromQueryNode (Some node) acc = fold ?h (cte_map node) (?from acc)"
      by (simp only: ExtractTablesFromQueryNode.simps)
    also have "\<dots> = ?from acc @ concat (map (\<lambda>x. ?h x []) (cte_map node))"
      by (rule fold_append_acc) (rule h)
    also have "\<dots> = acc @ (?from [] @ concat (map (\<lambda>x. ?h x []) (cte_map node)))"
      by (subst from_part) simp
    also have "?from [] @ concat (map (\<lambda>x. ?h x []) (cte_map node)) = fold ?h (cte_map node) (?from [])"
      by (rule fold_append_acc [symmetric]) (rule h)
    also have "\<dots> = ExtractTablesFromQueryNode (Some node) []"
      by (simp only: ExtractTablesFromQueryNode.simps)
    finally show "ExtractTablesFromQueryNode (Some node) acc
                    = acc @ ExtractTablesFromQueryNode (Some node) []" .
  qed
next
  case (3 tables ctx)
  show ?case by simp
next
  case (4 tref tables ctx)
  show ?case
  proof (cases tref)
    case (BaseTableRef s t)
    then show ?thesis by (simp add: ExtractTablesFromTableRef.simps(2))
  next
    case (JoinRef l r)
    have a: "\<And>acc. ExtractTablesFromTableRef l acc ctx = acc @ ExtractTablesFromTableRef l [] ctx"
      using 4(1) [OF JoinRef] by blast
    have b: "\<And>acc. ExtractTablesFromTableRef r acc ''JOIN'' = acc @ ExtractTablesFromTableRef r [] ''JOIN''"
      using 4(2) [OF JoinRef] by blast
    show ?thesis
    proof
      fix acc
      have "ExtractTablesFromTableRef (Some tref) acc ctx
              = ExtractTablesFromTableRef r (ExtractTablesFromTableRef l acc ctx) ''JOIN''"
        using JoinRef by (simp add: ExtractTablesFromTableRef.simps(2))
      also have "\<dots> = ExtractTablesFromTableRef l acc ctx @ ExtractTablesFromTableRef r [] ''JOIN''"
        by (rule b)
      also have "\<dots> = (acc @ ExtractTablesFromTableRef l [] ctx) @ ExtractTablesFromTableRef r [] ''JOIN''"
        by (simp only: a [of acc])
      also have "\<dots> = acc @ (ExtractTablesFromTableRef l [] ctx @ ExtractTablesFromTableRef r [] ''JOIN'')"
        by simp
      also have "ExtractTablesFromTableRef l [] ctx @ ExtractTablesFromTableRef r [] ''JOIN''
                  = ExtractTablesFromTableRef r (ExtractTablesFromTableRef l [] ctx) ''JOIN''"
        by (rule b [symmetric])
      also have "\<dots> = ExtractTablesFromTableRef (Some tref) [] ctx"
        using JoinRef by (simp add: ExtractTablesFromTableRef.simps(2))
      finally show "ExtractTablesFromTableRef (Some tref) acc ctx
              = acc @ ExtractTablesFromTableRef (Some tref) [] ctx" .
    qed
  next
    case (SubqueryRef q)
    show ?thesis
    proof (cases q)
      case None
      with SubqueryRef show ?thesis by (simp add: ExtractTablesFromTableRef.simps(2))
    next
      case (Some stmt)
      obtain n where stmt: "stmt = SelectStatement n" by (cases stmt)
      show ?thesis
      proof (cases n)
        case None
        with SubqueryRef Some stmt show ?thesis by (simp add: ExtractTablesFromTableRef.simps(2))
      next
        case (Some node)
        from 4(3) [OF SubqueryRef \<open>q = Some stmt\<close> stmt Some]
        have c: "\<And>acc. ExtractTablesFromQueryNode (Some node) acc
                   = acc @ ExtractTablesFromQueryNode (Some node) []"
          by blast
        show ?thesis
        proof
          fix acc
          have "ExtractTablesFromTableRef (Some tref) acc ctx = ExtractTablesFromQueryNode (Some node) acc"
            using SubqueryRef \<open>q = Some stmt\<close> stmt Some
            by (simp add: ExtractTablesFromTableRef.simps(2))
          moreover have "ExtractTablesFromTableRef (Some tref) [] ctx = ExtractTablesFromQueryNode (Some node) []"
            using SubqueryRef \<open>q = Some stmt\<close> stmt Some
            by (simp add: ExtractTablesFromTableRef.simps(2))
          ultimately show "ExtractTablesFromTableRef (Some tref) acc ctx
              = acc @ ExtractTablesFromTableRef (Some tref) [] ctx"
            using c [of acc] by simp
        qed
      qed
    qed
  next
    case (TableFunctionRef f)
    then show ?thesis
      by (auto simp add: ExtractTablesFromTableRef.simps(2) split: option.splits ParsedExpression.splits)
  next
    case OtherTableRef
    then show ?thesis by (simp add: ExtractTablesFromTableRef.simps(2))
  qed
qed

lemma tables_append:
  "ExtractTablesFromTableRef t acc ctx = acc @ ExtractTablesFromTableRef t [] ctx"
  using tables_append_aux(2) by blast

lemma join_step:
  "ExtractTablesFromTableRef (Some (JoinRef left right)) acc ctx =
     ExtractTablesFromTableRef right (ExtractTablesFromTableRef left acc ctx) ''JOIN''"
  by (simp add: ExtractTablesFromTableRef.simps(2))

lemma left_deep_tables:
  "ExtractTablesFromTableRef (Some (left_deep_joins (BaseTableRef s t) rights)) acc ctx =
     acc @ [ExtractedTable s t ctx]
         @ concat (map (\<lambda>r. ExtractTablesFromTableRef (Some r) [] ''JOIN'') rights)"
proof (induction rights arbitrary: acc rule: rev_induct)
  case Nil
  show ?case by (simp add: left_deep_joins_def ExtractTablesFromTableRef.simps(2))
next
  case (snoc r rights)
  have "left_deep_joins (BaseTableRef s t) (rights @ [r])
          = JoinRef (Some (left_deep_joins (BaseTableRef s t) rights)) (Some r)"
    by (simp add: left_deep_joins_def)
  then show ?case
    by (simp add: join_step snoc tables_append [of "Some r" "_ @ _"])
qed

text \<open>
  Claim C5: on a join the table extractor walks the left side with the context it was
  given and then the right side with the context \<^verbatim>\<open>JOIN\<close>, so the records of the left
  side come first. In a chain of joins nested to the left, the base table at the far left
  reports the context given to the chain and every table joined to it reports
  \<^verbatim>\<open>JOIN\<close>. For \<^verbatim>\<open>SELECT * FROM a JOIN b ON a.x=b.x\<close> the records are \<^verbatim>\<open>a\<close> with
  \<^verbatim>\<open>FROM\<close> and then \<^verbatim>\<open>b\<close> with \<^verbatim>\<open>JOIN\<close>.
\<close>

theorem table_extractor_joins:
  "ExtractTablesFromTableRef (Some (JoinRef left right)) tables ctx =
     ExtractTablesFromTableRef right (ExtractTablesFromTableRef left tables ctx) ''JOIN'' \<and>
   ExtractTablesFromTableRef (Some (JoinRef left right)) tables ctx =
     tables @ ExtractTablesFromTableRef left [] ctx @ ExtractTablesFromTableRef right [] ''JOIN'' \<and>
   ExtractTablesFromTableRef (Some (left_deep_joins (BaseTableRef s t) rights)) tables ctx =
     tables @ [ExtractedTable s t ctx]
       @ concat (map (\<lambda>r. ExtractTablesFromTableRef (Some r) [] ''JOIN'') rights) \<and>
   ExtractTablesFromTableRef
       (Some (left_deep_joins (BaseTableRef s t) (map (\<lambda>(s', t'). BaseTableRef s' t') names)))
       tables ctx =
     tables @ [ExtractedTable s t ctx] @ map (\<lambda>(s', t'). ExtractedTable s' t' ''JOIN'') names \<and>
   ExtractTablesFromStatement (Some select_from_a_join_b) [] =
     [ExtractedTable [] ''a'' ''FROM'', ExtractedTable [] ''b'' ''JOIN'']"
proof -
  have j: "ExtractTablesFromTableRef (Some (JoinRef left right)) tables ctx =
     tables @ ExtractTablesFromTableRef left [] ctx @ ExtractTablesFromTableRef right [] ''JOIN''"
  proof -
    have "ExtractTablesFromTableRef (Some (JoinRef left right)) tables ctx =
            ExtractTablesFromTableRef left tables ctx @ ExtractTablesFromTableRef right [] ''JOIN''"
      unfolding join_step by (rule tables_append)
    also have "ExtractTablesFromTableRef left tables ctx = tables @ ExtractTablesFromTableRef left [] ctx"
      by (rule tables_append)
    finally show ?thesis by simp
  qed
  have c: "concat (map (\<lambda>r. ExtractTablesFromTableRef (Some r) [] ''JOIN'')
             (map (\<lambda>(s', t'). BaseTableRef s' t') names))
           = map (\<lambda>(s', t'). ExtractedTable s' t' ''JOIN'') names"
    by (induction names) (auto simp add: ExtractTablesFromTableRef.simps(2))
  have e: "ExtractTablesFromStatement (Some select_from_a_join_b) [] =
     [ExtractedTable [] ''a'' ''FROM'', ExtractedTable [] ''b'' ''JOIN'']"
    by (simp add: ExtractTablesFromStatement_def select_from_a_join_b_def
          ExtractTablesFromQueryNode.simps(2) ExtractTablesFromTableRef.simps(2))
  have l: "ExtractTablesFromTableRef
       (Some (left_deep_joins (BaseTableRef s t) (map (\<lambda>(s', t'). BaseTableRef s' t') names)))
       tables ctx =
     tables @ [ExtractedTable s t ctx] @ map (\<lambda>(s', t'). ExtractedTable s' t' ''JOIN'') names"
    unfolding left_deep_tables c ..
  from join_step j left_deep_tables l e show ?thesis
    by (intro conjI)
qed

subsection \<open>Function calls\<close>

declare ExtractFunctionsFromExpression.simps(2) [simp del]

lemma functions_append:
  "ExtractFunctionsFromExpression (Some e) fs = fs @ argument_calls e"
proof (induction e arbitrary: fs)
  case (FunctionExpression a s n op d children)
  let ?h = "\<lambda>child fs. ExtractFunctionsFromExpression (Some child) fs"
  have h: "?h x ts = ts @ ?h x []" if "x \<in> set children" for x ts
    using FunctionExpression [OF that, of ts] FunctionExpression [OF that, of "[]"] by simp
  have m: "map (\<lambda>x. ?h x []) children = map argument_calls children"
    using FunctionExpression [of _ "[]"] by simp
  let ?ref = "FunctionRef n (if op then ''operator'' else if d then ''aggregate'' else ''scalar'')"
  have "ExtractFunctionsFromExpression (Some (FunctionExpression a s n op d children)) fs
          = fold ?h children (fs @ [?ref])"
    by (subst ExtractFunctionsFromExpression.simps(2)) simp
  also have "\<dots> = (fs @ [?ref]) @ concat (map (\<lambda>x. ?h x []) children)"
    by (rule fold_append_acc) (rule h)
  also have "\<dots> = fs @ argument_calls (FunctionExpression a s n op d children)"
    unfolding m by simp
  finally show ?case .
qed (simp_all add: ExtractFunctionsFromExpression.simps(2) split: ParsedExpression.splits)

lemma functions_fold:
  "fold (\<lambda>expr fs. ExtractFunctionsFromExpression (Some expr) fs) es fs
     = fs @ concat (map argument_calls es)"
  by (subst fold_append_acc [where h = "\<lambda>expr fs. ExtractFunctionsFromExpression (Some expr) fs"])
     (simp_all add: functions_append)

text \<open>
  Claim C2, as stated, fails: the extractor descends from a node only when the node is a
  function call. The predicate of \<^verbatim>\<open>WHERE upper(x) = 'A'\<close> is a comparison, so the call
  \<^verbatim>\<open>upper(x)\<close> below it is not reported, and the statement yields no record.
\<close>

theorem function_extractor_misses_comparison_operands:
  "nested_calls where_upper_x = [FunctionRef ''upper'' ''scalar''] \<and>
   ExtractFunctionsFromExpression (Some where_upper_x) [] = [] \<and>
   ExtractFunctionsFromStatement (Some select_where_upper) [] = []"
  by (simp add: where_upper_x_def select_where_upper_def ExtractFunctionsFromStatement_def
        ExtractFunctionsFromQueryNode_def ExtractFunctionsFromExpression.simps(2))

text \<open>
  Claim C2, amended: the extractor walks the select list, the \<^verbatim>\<open>WHERE\<close> predicate and the
  \<^verbatim>\<open>GROUP BY\<close> expressions in this order; each of these expressions that is a function
  call yields one record, followed by the records of the calls among its arguments,
  recursively and in pre-order. An expression that is not a function call yields nothing.
\<close>

theorem function_extractor_reports_argument_calls:
  "ExtractFunctionsFromExpression (Some expr) functions = functions @ argument_calls expr \<and>
   ExtractFunctionsFromExpression None functions = functions \<and>
   ExtractFunctionsFromQueryNode
       (Some (SelectNode ctes select_list from_table where_clause group_expressions)) functions =
     functions @ concat (map argument_calls select_list)
       @ (case where_clause of None \<Rightarrow> [] | Some w \<Rightarrow> argument_calls w)
       @ concat (map argument_calls group_expressions) \<and>
   ExtractFunctionsFromQueryNode (Some select_with_calls) [] =
     [FunctionRef ''lower'' ''scalar'', FunctionRef ''trim'' ''scalar'',
      FunctionRef ''count'' ''aggregate'', FunctionRef ''starts_with'' ''scalar'',
      FunctionRef ''lower'' ''scalar'', FunctionRef ''trim'' ''scalar'']"
proof -
  have q: "ExtractFunctionsFromQueryNode
       (Some (SelectNode ctes select_list from_table where_clause group_expressions)) fs =
     fs @ concat (map argument_calls select_list)
       @ (case where_clause of None \<Rightarrow> [] | Some w \<Rightarrow> argument_calls w)
       @ concat (map argument_calls group_expressions)"
    for ctes select_list from_table where_clause group_expressions fs
    by (cases where_clause)
       (simp_all add: ExtractFunctionsFromQueryNode_def functions_fold functions_append)
  show ?thesis
    by (simp add: functions_append q select_with_calls_def lower_trim_a_def)
qed

subsection \<open>Conditions\<close>

declare ExtractWhereConditions.simps(2) [simp del]

lemma comparison_step:
  assumes "parser_tagged (ComparisonExpression a t l r)"
  shows "ExtractWhereConditions ToString (Some (ComparisonExpression a t l r)) cs
           = cs @ [comparison_record ToString (ComparisonExpression a t l r)]"
proof -
  have t: "t \<noteq> CONJUNCTION_AND" "t \<noteq> CONJUNCTION_OR"
    using assms by (auto simp add: tested_tags_def)
  have lc: "(case l of
               Some l' \<Rightarrow>
                 if expression_type l' = COLUMN_REF
                 then (case l' of ColumnRefExpression _ column_name \<Rightarrow> column_name | _ \<Rightarrow> [])
                 else ToString l'
             | None \<Rightarrow> [])
            = (case l of
                 None \<Rightarrow> []
               | Some (ColumnRefExpression _ column_name) \<Rightarrow> column_name
               | Some l' \<Rightarrow> ToString l')"
  proof (cases l)
    case None
    then show ?thesis by simp
  next
    case (Some l')
    have "parser_tagged l'" using assms Some by simp
    then show ?thesis using Some by (cases l') (auto simp add: tested_tags_def)
  qed
  have rc: "(case r of
               Some r' \<Rightarrow>
                 if expression_type r' = VALUE_CONSTANT
                 then (case r' of ConstantExpression _ v \<Rightarrow> v | _ \<Rightarrow> [])
                 else ToString r'
             | None \<Rightarrow> [])
            = (case r of
                 None \<Rightarrow> []
               | Some (ConstantExpression _ v) \<Rightarrow> v
               | Some r' \<Rightarrow> ToString r')"
  proof (cases r)
    case None
    then show ?thesis by simp
  next
    case (Some r')
    have "parser_tagged r'" using assms Some by simp
    then show ?thesis using Some by (cases r') (auto simp add: tested_tags_def)
  qed
  show ?thesis
    by (subst ExtractWhereConditions.simps(2)) (simp add: t lc rc)
qed

lemma where_append:
  "parser_tagged e \<Longrightarrow>
   ExtractWhereConditions ToString (Some e) cs = cs @ leaf_conditions ToString e"
proof (induction e arbitrary: cs)
  case (ConjunctionExpression a t children)
  let ?h = "\<lambda>child cs. ExtractWhereConditions ToString (Some child) cs"
  have tagged: "parser_tagged x" if "x \<in> set children" for x
    using ConjunctionExpression.prems that by (simp add: list_all_iff)
  have h: "?h x ts = ts @ ?h x []" if "x \<in> set children" for x ts
    using ConjunctionExpression.IH [OF that tagged [OF that], of ts]
          ConjunctionExpression.IH [OF that tagged [OF that], of "[]"] by simp
  have m: "map (\<lambda>x. ?h x []) children = map (leaf_conditions ToString) children"
    using ConjunctionExpression.IH [OF _ tagged, of _ "[]"] by simp
  have t: "t = CONJUNCTION_AND \<or> t = CONJUNCTION_OR"
    using ConjunctionExpression.prems by simp
  have "ExtractWhereConditions ToString (Some (ConjunctionExpression a t children)) cs
          = fold ?h children cs"
    using t by (subst ExtractWhereConditions.simps(2)) auto
  also have "\<dots> = cs @ concat (map (\<lambda>x. ?h x []) children)"
    by (rule fold_append_acc) (rule h)
  also have "\<dots> = cs @ leaf_conditions ToString (ConjunctionExpression a t children)"
    unfolding m by simp
  finally show ?case .
next
  case (ComparisonExpression a t l r)
  from comparison_step [OF ComparisonExpression.prems]
  show ?case by simp
qed (simp_all add: ExtractWhereConditions.simps(2) tested_tags_def)

lemma leaf_count: "length (leaf_conditions ToString e) = leaf_comparisons e"
proof (induction e)
  case (ConjunctionExpression a t children)
  then have "map (length \<circ> leaf_conditions ToString) children = map leaf_comparisons children"
    by simp
  then have "sum_list (map (length \<circ> leaf_conditions ToString) children)
               = sum_list (map leaf_comparisons children)"
    by (rule arg_cong)
  then show ?case by (simp add: length_concat)
qed simp_all

lemma operator_default:
  "t \<notin> {COMPARE_EQUAL, COMPARE_NOTEQUAL, COMPARE_LESSTHAN, COMPARE_GREATERTHAN,
          COMPARE_LESSTHANOREQUALTO, COMPARE_GREATERTHANOREQUALTO, COMPARE_IN, COMPARE_NOT_IN}
   \<Longrightarrow> ComparisonTypeToOperator t = ''?''"
  by (cases t) simp_all

text \<open>
  Claim C6: on a predicate with the tags of the parser, the extractor appends the records
  of the comparisons at the leaves of the tree of \<^verbatim>\<open>AND\<close> and \<^verbatim>\<open>OR\<close> nodes, in order, one
  for each comparison and none for a conjunction; the operator comes from the fixed table,
  and every kind outside the table gives \<^verbatim>\<open>?\<close>. For
  \<^verbatim>\<open>SELECT * FROM t WHERE x > 1 AND y = 2\<close> the records are \<^verbatim>\<open>x > 1\<close> and then
  \<^verbatim>\<open>y = 2\<close>.
\<close>

theorem where_extractor_flattens_conjunctions:
  "(parser_tagged expr \<longrightarrow>
      ExtractWhereConditions ToString (Some expr) conds = conds @ leaf_conditions ToString expr \<and>
      length (ExtractWhereConditions ToString (Some expr) []) = leaf_comparisons expr) \<and>
   ComparisonTypeToOperator COMPARE_EQUAL = ''='' \<and>
   ComparisonTypeToOperator COMPARE_NOTEQUAL = ''!='' \<and>
   ComparisonTypeToOperator COMPARE_LESSTHAN = ''<'' \<and>
   ComparisonTypeToOperator COMPARE_GREATERTHAN = ''>'' \<and>
   ComparisonTypeToOperator COMPARE_LESSTHANOREQUALTO = ''<='' \<and>
   ComparisonTypeToOperator COMPARE_GREATERTHANOREQUALTO = ''>='' \<and>
   ComparisonTypeToOperator COMPARE_IN = ''IN'' \<and>
   ComparisonTypeToOperator COMPARE_NOT_IN = ''NOT IN'' \<and>
   (t \<notin> {COMPARE_EQUAL, COMPARE_NOTEQUAL, COMPARE_LESSTHAN, COMPARE_GREATERTHAN,
           COMPARE_LESSTHANOREQUALTO, COMPARE_GREATERTHANOREQUALTO, COMPARE_IN, COMPARE_NOT_IN}
      \<longrightarrow> ComparisonTypeToOperator t = ''?'') \<and>
   conditions (ParseWhereBind (\<lambda>q. Parsed [select_where_x_y]) ToString sql) =
     [WhereCondition ''x'' ''>'' ''1'', WhereCondition ''y'' ''='' ''2'']"
proof -
  have ex: "parser_tagged x_gt_1_and_y_eq_2"
    by (simp add: x_gt_1_and_y_eq_2_def tested_tags_def)
  have "conditions (ParseWhereBind (\<lambda>q. Parsed [select_where_x_y]) ToString sql) =
     [WhereCondition ''x'' ''>'' ''1'', WhereCondition ''y'' ''='' ''2'']"
    by (simp add: ParseWhereBind_def select_where_x_y_def where_append [OF ex])
       (simp add: x_gt_1_and_y_eq_2_def)
  then show ?thesis
    using operator_default [of t] by (simp add: where_append leaf_count)
qed

theorem where_extractor_flattens_conjunctions_witness:
  "parser_tagged x_gt_1_and_y_eq_2 \<and>
   ExtractWhereConditions (\<lambda>e. ''?'') (Some x_gt_1_and_y_eq_2) [] =
     [WhereCondition ''x'' ''>'' ''1'', WhereCondition ''y'' ''='' ''2''] \<and>
   leaf_comparisons x_gt_1_and_y_eq_2 = 2 \<and>
   COMPARE_DISTINCT_FROM \<notin> {COMPARE_EQUAL, COMPARE_NOTEQUAL, COMPARE_LESSTHAN, COMPARE_GREATERTHAN,
           COMPARE_LESSTHANOREQUALTO, COMPARE_GREATERTHANOREQUALTO, COMPARE_IN, COMPARE_NOT_IN} \<and>
   ComparisonTypeToOperator COMPARE_DISTINCT_FROM = ''?''"
proof -
  have ex: "parser_tagged x_gt_1_and_y_eq_2"
    by (simp add: x_gt_1_and_y_eq_2_def tested_tags_def)
  from where_extractor_flattens_conjunctions
         [of x_gt_1_and_y_eq_2 "\<lambda>e. ''?''" "[]" COMPARE_DISTINCT_FROM] ex
  have "ExtractWhereConditions (\<lambda>e. ''?'') (Some x_gt_1_and_y_eq_2) []
          = leaf_conditions (\<lambda>e. ''?'') x_gt_1_and_y_eq_2"
    by simp
  then show ?thesis
    using ex by (simp add: x_gt_1_and_y_eq_2_def)
qed

lemma column_name_step:
  "parser_tagged e \<Longrightarrow> ExtractColumnNames (Some e) i names = names @ [projection_name e i]"
  by (cases e) (auto simp add: tested_tags_def)

lemma fold_index_names:
  assumes "\<And>i. i \<in> set js \<Longrightarrow> i < length es \<and> parser_tagged (es ! i)"
  shows "fold (\<lambda>i names. ExtractColumnNames (Some (es ! i)) i names) js acc
           = acc @ map (\<lambda>i. projection_name (es ! i) i) js"
  using assms
proof (induction js arbitrary: acc)
  case Nil
  show ?case by simp
next
  case (Cons j js)
  have t: "parser_tagged (es ! j)" using Cons.prems by simp
  have "fold (\<lambda>i names. ExtractColumnNames (Some (es ! i)) i names) (j # js) acc
          = fold (\<lambda>i names. ExtractColumnNames (Some (es ! i)) i names) js
              (acc @ [projection_name (es ! j) j])"
    by (simp only: fold_simps column_name_step [OF t])
  also have "\<dots> = (acc @ [projection_name (es ! j) j]) @ map (\<lambda>i. projection_name (es ! i) i) js"
    by (rule Cons.IH) (simp add: Cons.prems)
  finally show ?case by simp
qed

lemma select_list_names:
  assumes "list_all parser_tagged select_list"
  shows "ExtractSelectListNames select_list acc
           = acc @ map (\<lambda>i. projection_name (select_list ! i) i) [0 ..< length select_list]"
  unfolding ExtractSelectListNames_def
  using assms by (intro fold_index_names) (simp add: list_all_length)

lemma to_string_digit: "n < 10 \<Longrightarrow> to_string n = [digit_char n]"
  by (simp add: to_string.simps)

text \<open>
  Claim C7: for a select list with the tags of the parser, the extractor gives exactly one
  name for each item, in the order of the list: the alias when there is one, else the
  column name of a column reference, else the name of a function call, else \<^verbatim>\<open>col\<close>
  followed by the index. For \<^verbatim>\<open>SELECT a, b AS c, count(x) FROM t\<close> the names are
  \<^verbatim>\<open>a\<close>, \<^verbatim>\<open>c\<close>, \<^verbatim>\<open>count\<close>.
\<close>

theorem column_extractor_one_name_per_item:
  "(list_all parser_tagged select_list \<longrightarrow>
      length (ExtractSelectListNames select_list []) = length select_list \<and>
      (\<forall>i < length select_list.
         ExtractSelectListNames select_list [] ! i = projection_name (select_list ! i) i)) \<and>
   (expression_alias expr \<noteq> [] \<longrightarrow> projection_name expr k = expression_alias expr) \<and>
   projection_name (ColumnRefExpression [] column_name) k = column_name \<and>
   projection_name (FunctionExpression [] schema function_name is_operator is_distinct children) k
     = function_name \<and>
   projection_name (ComparisonExpression [] t left right) k = ''col'' @ to_string k \<and>
   projection_name (ConjunctionExpression [] t children) k = ''col'' @ to_string k \<and>
   projection_name (ConstantExpression [] v) k = ''col'' @ to_string k \<and>
   projection_name (OtherExpression [] t c) k = ''col'' @ to_string k \<and>
   col_names (ParseColumnsBind (\<lambda>q. Parsed [select_a_b_as_c_count_x]) sql 0) = [''a'', ''c'', ''count'']"
proof -
  have ex: "col_names (ParseColumnsBind (\<lambda>q. Parsed [select_a_b_as_c_count_x]) sql 0)
              = [''a'', ''c'', ''count'']"
    by (simp add: ParseColumnsBind_def select_a_b_as_c_count_x_def ExtractSelectListNames_def
          upt_rec [of 0] upt_rec [of 1] upt_rec [of 2] upt_rec [of 3])
  have names: "list_all parser_tagged select_list \<longrightarrow>
      length (ExtractSelectListNames select_list []) = length select_list \<and>
      (\<forall>i < length select_list.
         ExtractSelectListNames select_list [] ! i = projection_name (select_list ! i) i)"
  proof
    assume t: "list_all parser_tagged select_list"
    have e: "ExtractSelectListNames select_list []
               = map (\<lambda>i. projection_name (select_list ! i) i) [0 ..< length select_list]"
      using select_list_names [OF t, of "[]"] by simp
    show "length (ExtractSelectListNames select_list []) = length select_list \<and>
      (\<forall>i < length select_list.
         ExtractSelectListNames select_list [] ! i = projection_name (select_list ! i) i)"
      unfolding e by (simp del: projection_name.simps)
  qed
  have prec: "(expression_alias expr \<noteq> [] \<longrightarrow> projection_name expr k = expression_alias expr) \<and>
   projection_name (ColumnRefExpression [] column_name) k = column_name \<and>
   projection_name (FunctionExpression [] schema function_name is_operator is_distinct children) k
     = function_name \<and>
   projection_name (ComparisonExpression [] t left right) k = ''col'' @ to_string k \<and>
   projection_name (ConjunctionExpression [] t children) k = ''col'' @ to_string k \<and>
   projection_name (ConstantExpression [] v) k = ''col'' @ to_string k \<and>
   projection_name (OtherExpression [] t c) k = ''col'' @ to_string k"
    by simp
  from names prec ex show ?thesis by (intro conjI) blast+
qed

theorem column_extractor_one_name_per_item_witness:
  "list_all parser_tagged
     [ColumnRefExpression [] ''a'', ColumnRefExpression ''c'' ''b'',
      ConstantExpression [] ''1''] \<and>
   ExtractSelectListNames
     [ColumnRefExpression [] ''a'', ColumnRefExpression ''c'' ''b'',
      ConstantExpression [] ''1''] [] = [''a'', ''c'', ''col2''] \<and>
   expression_alias (ColumnRefExpression ''c'' ''b'') \<noteq> [] \<and>
   projection_name (ColumnRefExpression ''c'' ''b'') 1 = ''c''"
proof -
  let ?es = "[ColumnRefExpression [] ''a'', ColumnRefExpression ''c'' ''b'',
      ConstantExpression [] ''1'']"
  have t: "list_all parser_tagged ?es" by simp
  have d: "to_string 2 = ''2''"
    by (simp add: to_string_digit digit_char_def)
  from column_extractor_one_name_per_item [of ?es "ColumnRefExpression ''c'' ''b''" 1] t
  have l: "length (ExtractSelectListNames ?es []) = 3"
    and n: "\<forall>i<3. ExtractSelectListNames ?es [] ! i = projection_name (?es ! i) i"
    by simp_all
  have n0: "ExtractSelectListNames ?es [] ! 0 = ''a''" using n by simp
  have n1: "ExtractSelectListNames ?es [] ! 1 = ''c''" using n by simp
  have n2: "ExtractSelectListNames ?es [] ! 2 = ''col2''" using n d by simp
  have "ExtractSelectListNames ?es [] = [''a'', ''c'', ''col2'']"
  proof (rule nth_equalityI)
    show "length (ExtractSelectListNames ?es []) = length [''a'', ''c'', ''col2'']"
      using l by simp
  next
    fix i assume "i < length (ExtractSelectListNames ?es [])"
    then have "i = 0 \<or> i = 1 \<or> i = 2" using l by auto
    then show "ExtractSelectListNames ?es [] ! i = [''a'', ''c'', ''col2''] ! i"
      using n0 n1 n2 by auto
  qed
  then show ?thesis by simp
qed

subsection \<open>Statements\<close>

lemma upt_first: "[i ..< i + Suc n] = i # [i + 1 ..< i + 1 + n]"
proof -
  have "i < i + Suc n" by simp
  from upt_conv_Cons [OF this] show ?thesis by (simp del: upt_Suc)
qed

lemma statements_loop:
  "ParseStatementsLoop svs ts stmts idx cnt out =
     (out @ map (\<lambda>i. (int i, Some (ts (statement_type (stmts ! i))), None, 0))
               [idx ..< idx + min (length stmts - idx) (svs - cnt)],
      idx + min (length stmts - idx) (svs - cnt))"
proof (induction svs ts stmts idx cnt out rule: ParseStatementsLoop.induct)
  case (1 svs ts stmts idx cnt out)
  let ?row = "\<lambda>i. (int i, Some (ts (statement_type (stmts ! i))), None, 0::int)"
  show ?case
  proof (cases "idx < length stmts \<and> cnt < svs")
    case True
    let ?n = "min (length stmts - (idx + 1)) (svs - (cnt + 1))"
    have m: "min (length stmts - idx) (svs - cnt) = Suc ?n"
      using True by auto
    have u: "[idx ..< idx + Suc ?n] = idx # [idx + 1 ..< idx + 1 + ?n]"
      by (rule upt_first)
    have "ParseStatementsLoop svs ts stmts idx cnt out
            = ParseStatementsLoop svs ts stmts (idx + 1) (cnt + 1) (out @ [?row idx])"
      using True by (subst ParseStatementsLoop.simps) simp
    also have "\<dots> = ((out @ [?row idx]) @ map ?row [idx + 1 ..< idx + 1 + ?n], idx + 1 + ?n)"
      by (rule 1 [OF True])
    also have "\<dots> = (out @ map ?row [idx ..< idx + Suc ?n], idx + Suc ?n)"
      unfolding u by simp
    finally show ?thesis unfolding m .
  next
    case False
    then have "min (length stmts - idx) (svs - cnt) = 0" by auto
    then show ?thesis
      using False by (subst ParseStatementsLoop.simps) auto
  qed
qed

text \<open>
  Claim C4: when the parser does not throw an exception with an empty message, splitting either
  succeeds, with all statements of the parser in their order and an empty error, and the
  table function lists one row for each statement; or it fails, with no statement and the
  non-empty message of the exception, and the table function lists the single error row
  and then nothing. There is no outcome with both statements and an error.
\<close>

theorem split_is_all_or_nothing:
  assumes "ParseQuery sql \<noteq> ParserException []"
  shows "(\<exists>stmts. ParseQuery sql = Parsed stmts \<and>
            statements (ParseStatementsBind ParseQuery sql) = stmts \<and>
            ParseStatementsBindData.error (ParseStatementsBind ParseQuery sql) = [] \<and>
            (length stmts \<le> STANDARD_VECTOR_SIZE \<longrightarrow>
               ParseStatementsFunc STANDARD_VECTOR_SIZE StatementTypeToString
                   (ParseStatementsBind ParseQuery sql) 0 =
                 (map (\<lambda>i. (int i, Some (StatementTypeToString (statement_type (stmts ! i))), None, 0))
                      [0 ..< length stmts],
                  length stmts))) \<or>
         (\<exists>what. ParseQuery sql = ParserException what \<and> what \<noteq> [] \<and>
            statements (ParseStatementsBind ParseQuery sql) = [] \<and>
            ParseStatementsBindData.error (ParseStatementsBind ParseQuery sql) = what \<and>
            ParseStatementsFunc STANDARD_VECTOR_SIZE StatementTypeToString
                (ParseStatementsBind ParseQuery sql) 0 = ([(0, None, Some what, 0)], 1) \<and>
            ParseStatementsFunc STANDARD_VECTOR_SIZE StatementTypeToString
                (ParseStatementsBind ParseQuery sql) 1 = ([], 1))"
proof (cases "ParseQuery sql")
  case (Parsed stmts)
  then show ?thesis
    by (simp add: ParseStatementsBind_def ParseStatementsFunc_def statements_loop min_def)
next
  case (ParserException what)
  with assms have "what \<noteq> []" by auto
  with ParserException show ?thesis
    by (simp add: ParseStatementsBind_def ParseStatementsFunc_def statements_loop)
qed

theorem split_is_all_or_nothing_witness:
  "example_parser ''SELECT 1; DELETE FROM t'' \<noteq> ParserException [] \<and>
   statements (ParseStatementsBind example_parser ''SELECT 1; DELETE FROM t'') =
     [Select (SelectStatement (Some (SelectNode [] [ConstantExpression [] ''1''] None None []))),
      OtherSQLStatement DELETE_STATEMENT] \<and>
   ParseStatementsBindData.error (ParseStatementsBind example_parser ''SELECT 1; DELETE FROM t'') = [] \<and>
   ParseStatementsFunc 2048 (\<lambda>t. ''?'')
       (ParseStatementsBind example_parser ''SELECT 1; DELETE FROM t'') 0
     = ([(0, Some ''?'', None, 0), (1, Some ''?'', None, 0)], 2) \<and>
   example_parser ''SELEC 1'' \<noteq> ParserException [] \<and>
   statements (ParseStatementsBind example_parser ''SELEC 1'') = [] \<and>
   ParseStatementsBindData.error (ParseStatementsBind example_parser ''SELEC 1'')
     = ''Parser Error: syntax error'' \<and>
   ParseStatementsFunc 2048 (\<lambda>t. ''?'') (ParseStatementsBind example_parser ''SELEC 1'') 0
     = ([(0, None, Some ''Parser Error: syntax error'', 0)], 1)"
proof -
  have p1: "example_parser ''SELECT 1; DELETE FROM t'' =
     Parsed [Select (SelectStatement (Some (SelectNode [] [ConstantExpression [] ''1''] None None []))),
      OtherSQLStatement DELETE_STATEMENT]"
    by (simp add: example_parser_def)
  have p2: "example_parser ''SELEC 1'' = ParserException ''Parser Error: syntax error''"
    by (simp add: example_parser_def)
  have h1: "example_parser ''SELECT 1; DELETE FROM t'' \<noteq> ParserException []"
    unfolding p1 by simp
  have h2: "example_parser ''SELEC 1'' \<noteq> ParserException []"
    unfolding p2 by simp
  from split_is_all_or_nothing
         [of example_parser "''SELECT 1; DELETE FROM t''" 2048 "\<lambda>t. ''?''", OF h1] p1
  have a: "statements (ParseStatementsBind example_parser ''SELECT 1; DELETE FROM t'') =
     [Select (SelectStatement (Some (SelectNode [] [ConstantExpression [] ''1''] None None []))),
      OtherSQLStatement DELETE_STATEMENT] \<and>
   ParseStatementsBindData.error (ParseStatementsBind example_parser ''SELECT 1; DELETE FROM t'') = [] \<and>
   ParseStatementsFunc 2048 (\<lambda>t. ''?'')
       (ParseStatementsBind example_parser ''SELECT 1; DELETE FROM t'') 0
     = ([(0, Some ''?'', None, 0), (1, Some ''?'', None, 0)], 2)"
    by (auto simp add: upt_rec [of 0] upt_rec [of 1] upt_rec [of 2])
  from split_is_all_or_nothing [of example_parser "''SELEC 1''" 2048 "\<lambda>t. ''?''", OF h2] p2
  have b: "statements (ParseStatementsBind example_parser ''SELEC 1'') = [] \<and>
   ParseStatementsBindData.error (ParseStatementsBind example_parser ''SELEC 1'')
     = ''Parser Error: syntax error'' \<and>
   ParseStatementsFunc 2048 (\<lambda>t. ''?'') (ParseStatementsBind example_parser ''SELEC 1'') 0
     = ([(0, None, Some ''Parser Error: syntax error'', 0)], 1)"
    by auto
  from a b h1 h2 show ?thesis by blast
qed

subsection \<open>Tokens\<close>



lemma tokenize_sql_bind_propagates:
  "Tokenize sql = ParserException what \<Longrightarrow> TokenizeSqlBind Tokenize sql = Inl what"
  by (simp add: TokenizeSqlBind_def)




section \<open>Properties of the type serializer\<close>

lemma snprintf_at_fit:
  "length buf + length s < n \<Longrightarrow>
   snprintf_at n (buf, length buf) s = Some (buf @ s, length buf + length s)"
  by (simp add: snprintf_at_def)

lemma snprintf_buf_fit: "length s < n \<Longrightarrow> snprintf_buf n s = Some s"
  by (simp add: snprintf_buf_def)

lemma size_t_minus_small: "b \<le> a \<Longrightarrow> size_t_minus a b = a - b"
  by (simp add: size_t_minus_def)

lemma member_loop_fit:
  assumes "\<And>name c. (name, c) \<in> set ms \<Longrightarrow> SerializeLogicalType c 256 = Some (canonical_type c)"
    and "members_room n (length buf) i ms"
    and "length buf + length (members_text i ms) < n"
    and "10 \<le> n"
  shows "member_loop n ms i (buf, length buf) =
           Some (buf @ members_text i ms, length buf + length (members_text i ms))"
  using assms
proof (induction ms arbitrary: i buf)
  case Nil
  show ?case by simp
next
  case (Cons m rest)
  obtain name c where m: "m = (name, c)" by (cases m)
  let ?sep = "if i > 0 then '', '' else []"
  let ?item = "name @ '' '' @ canonical_type c"
  let ?buf1 = "buf @ ?sep"
  let ?buf2 = "?buf1 @ ?item"
  have len: "length buf + length ?sep + length ?item + length (members_text (i + 1) rest) < n"
    using Cons.prems(3) m by simp
  have "length buf + 10 < n"
    using Cons.prems(2) m by simp
  then have guard: "length buf < size_t_minus n 10"
    using Cons.prems(4) by (simp add: size_t_minus_small)
  have s1: "(if i > 0 then snprintf_at n (buf, length buf) '', '' else Some (buf, length buf))
              = Some (?buf1, length ?buf1)"
    using len by (cases "i > 0") (simp_all add: snprintf_at_fit)
  have c: "SerializeLogicalType c 256 = Some (canonical_type c)"
    by (rule Cons.prems(1) [of name c]) (simp add: m)
  have s2: "snprintf_at n (?buf1, length ?buf1) ?item = Some (?buf2, length ?buf2)"
    using len snprintf_at_fit [of ?buf1 ?item n] by simp
  have room: "members_room n (length ?buf2) (i + 1) rest"
    using Cons.prems(2) m by (simp add: add.assoc)
  have ih: "member_loop n rest (i + 1) (?buf2, length ?buf2) =
              Some (?buf2 @ members_text (i + 1) rest,
                    length ?buf2 + length (members_text (i + 1) rest))"
    using Cons.prems(1,4) len room by (intro Cons.IH) auto
  have "member_loop n (m # rest) i (buf, length buf)
          = member_loop n rest (i + 1) (?buf2, length ?buf2)"
    unfolding m by (simp only: member_loop.simps snd_conv guard if_True s1 c s2 option.case)
  also note ih
  finally show ?case
    unfolding m by simp
qed

lemma enum_loop_fit:
  assumes "i + length vals = dict_size"
    and "values_room n (length buf) i vals"
    and "length buf + length (enum_text i vals) < n"
    and "20 \<le> n"
  shows "enum_loop n dict_size vals i (buf, length buf) =
           Some (buf @ enum_text i vals, length buf + length (enum_text i vals))"
  using assms
proof (induction vals arbitrary: i buf)
  case Nil
  show ?case by simp
next
  case (Cons v vs)
  show ?case
  proof (cases "i < 10")
    case False
    then show ?thesis by simp
  next
    case True
    let ?sep = "if i > 0 then '', '' else []"
    let ?item = "[squote] @ v @ [squote]"
    let ?buf1 = "buf @ ?sep"
    let ?buf2 = "?buf1 @ ?item"
    have len: "length buf + length ?sep + length ?item + length (enum_text (i + 1) vs) < n"
      using Cons.prems(3) True by simp
    have "length buf + 20 < n"
      using Cons.prems(2) True by simp
    then have guard: "i < dict_size \<and> i < 10 \<and> length buf < size_t_minus n 20"
      using Cons.prems(1,4) True by (simp add: size_t_minus_small)
    have s1: "(if i > 0 then snprintf_at n (buf, length buf) '', '' else Some (buf, length buf))
                = Some (?buf1, length ?buf1)"
      using len by (cases "i > 0") (simp_all add: snprintf_at_fit)
    have s2: "snprintf_at n (?buf1, length ?buf1) ?item = Some (?buf2, length ?buf2)"
      using len snprintf_at_fit [of ?buf1 ?item n] by simp
    have room: "values_room n (length ?buf2) (i + 1) vs"
      using Cons.prems(2) True by (cases "i + 1 < 10") (simp_all add: add.assoc)
    have ih: "enum_loop n dict_size vs (i + 1) (?buf2, length ?buf2) =
                Some (?buf2 @ enum_text (i + 1) vs,
                      length ?buf2 + length (enum_text (i + 1) vs))"
      using Cons.prems(1,4) len room by (intro Cons.IH) auto
    have "enum_loop n dict_size (v # vs) i (buf, length buf)
            = enum_loop n dict_size vs (i + 1) (?buf2, length ?buf2)"
      by (simp only: enum_loop.simps snd_conv guard if_True s1 s2 option.case simp_thms)
    also note ih
    finally show ?thesis
      using True by simp
  qed
qed

lemma join_with_Cons:
  "join_with sep (x # xs) = x @ concat (map (\<lambda>y. sep @ y) xs)"
  by (induction xs arbitrary: x) simp_all

lemma members_text_pos:
  "i > 0 \<Longrightarrow> members_text i ms
     = concat (map (\<lambda>y. '', '' @ y) (map (\<lambda>(name, t). name @ '' '' @ canonical_type t) ms))"
  by (induction ms arbitrary: i) auto

lemma members_text_join:
  "members_text 0 ms = join_with '', '' (map (\<lambda>(name, t). name @ '' '' @ canonical_type t) ms)"
proof (cases ms)
  case Nil
  then show ?thesis by simp
next
  case (Cons m rest)
  obtain name c where m: "m = (name, c)" by (cases m)
  show ?thesis
    unfolding Cons m by (simp add: join_with_Cons members_text_pos del: join_with.simps)
qed

lemma enum_text_pos:
  "i > 0 \<Longrightarrow> enum_text i vs
     = concat (map (\<lambda>y. '', '' @ y) (map (\<lambda>v. [squote] @ v @ [squote]) (take (10 - i) vs)))"
proof (induction vs arbitrary: i)
  case Nil
  show ?case by simp
next
  case (Cons v vs)
  show ?case
  proof (cases "i < 10")
    case True
    then have "10 - i = Suc (10 - (i + 1))" by simp
    then show ?thesis using Cons True by simp
  next
    case False
    then show ?thesis by simp
  qed
qed

lemma enum_text_join:
  "enum_text 0 vs = join_with '', '' (map (\<lambda>v. [squote] @ v @ [squote]) (take 10 vs))"
proof (cases vs)
  case Nil
  then show ?thesis by simp
next
  case (Cons v rest)
  have "take 10 (v # rest) = v # take 9 rest" by (simp add: take_Cons')
  then show ?thesis
    unfolding Cons using enum_text_pos [of 1 rest]
    by (simp add: join_with_Cons del: join_with.simps)
qed

declare canonical_type.simps(5,6,7) [simp del]

declare canonical_type.simps(5,6,7) [simp del]

lemma members_fit:
  assumes ih: "\<And>name c. (name, c) \<in> set ms \<Longrightarrow> SerializeLogicalType c 256 = Some (canonical_type c)"
    and room: "members_room n (length prefix) 0 ms"
    and len: "length (prefix @ join_with '', '' (map (\<lambda>(name, t). name @ '' '' @ canonical_type t) ms) @ '')'')
                < n"
    and n: "10 \<le> n"
  shows "(case snprintf_at n ([], 0) prefix of
        None \<Rightarrow> None
      | Some st \<Rightarrow>
          (case member_loop n ms 0 st of
             None \<Rightarrow> None
           | Some st1 \<Rightarrow>
               (case snprintf_at n st1 '')'' of
                  None \<Rightarrow> None
                | Some st2 \<Rightarrow> if n = 0 then None else Some (fst st2))))
         = Some (prefix @ join_with '', '' (map (\<lambda>(name, t). name @ '' '' @ canonical_type t) ms) @ '')'')"
proof -
  let ?text = "members_text 0 ms"
  have len': "length prefix + length ?text + 1 < n"
    using len by (simp add: members_text_join)
  have a: "snprintf_at n ([], 0) prefix = Some (prefix, length prefix)"
    using snprintf_at_fit [of "[]" prefix n] len' by simp
  have b: "member_loop n ms 0 (prefix, length prefix)
             = Some (prefix @ ?text, length (prefix @ ?text))"
    using member_loop_fit [of ms n prefix 0, OF ih room _ n] len' by simp
  have c: "snprintf_at n (prefix @ ?text, length (prefix @ ?text)) '')''
             = Some ((prefix @ ?text) @ '')'', length (prefix @ ?text) + length '')'')"
    by (rule snprintf_at_fit) (use len' in simp)
  have "n \<noteq> 0" using len' by simp
  then have "(case snprintf_at n ([], 0) prefix of
        None \<Rightarrow> None
      | Some st \<Rightarrow>
          (case member_loop n ms 0 st of
             None \<Rightarrow> None
           | Some st1 \<Rightarrow>
               (case snprintf_at n st1 '')'' of
                  None \<Rightarrow> None
                | Some st2 \<Rightarrow> if n = 0 then None else Some (fst st2))))
         = Some ((prefix @ ?text) @ '')'')"
    by (simp only: a b c option.case fst_conv if_False)
  then show ?thesis
    by (simp add: members_text_join)
qed

lemma serialize_has_room:
  "has_room t n \<Longrightarrow> 20 \<le> n \<Longrightarrow> SerializeLogicalType t n = Some (canonical_type t)"
proof (induction t arbitrary: n)
  case (DecimalType w s)
  then show ?case by (simp add: snprintf_buf_fit)
next
  case (ListType c)
  then show ?case by (simp add: snprintf_buf_fit)
next
  case (ArrayType c k)
  then show ?case by (simp add: snprintf_buf_fit)
next
  case (MapType k v)
  then show ?case by (simp add: snprintf_buf_fit)
next
  case (StructType ms)
  have ih: "SerializeLogicalType c 256 = Some (canonical_type c)" if "(name, c) \<in> set ms" for name c
  proof -
    have "has_room c 256" using StructType.prems that by (auto simp add: list_all_iff)
    moreover have "c \<in> Basic_BNFs.snds (name, c)" by simp
    ultimately show ?thesis using StructType.IH that by fastforce
  qed
  have len: "length (''STRUCT('' @ join_with '', '' (map (\<lambda>(name, t). name @ '' '' @ canonical_type t) ms) @ '')'')
                < n"
    using StructType.prems by (simp add: canonical_type.simps(5))
  have room: "members_room n (length ''STRUCT('') 0 ms"
    using StructType.prems by simp
  have n: "10 \<le> n" using StructType.prems by simp
  show ?case
    unfolding SerializeLogicalType.simps canonical_type.simps(5)
    by (rule members_fit [OF ih room len n])
next
  case (UnionType ms)
  have ih: "SerializeLogicalType c 256 = Some (canonical_type c)" if "(name, c) \<in> set ms" for name c
  proof -
    have "has_room c 256" using UnionType.prems that by (auto simp add: list_all_iff)
    moreover have "c \<in> Basic_BNFs.snds (name, c)" by simp
    ultimately show ?thesis using UnionType.IH that by fastforce
  qed
  have len: "length (''UNION('' @ join_with '', '' (map (\<lambda>(name, t). name @ '' '' @ canonical_type t) ms) @ '')'')
                < n"
    using UnionType.prems by (simp add: canonical_type.simps(6))
  have room: "members_room n (length ''UNION('') 0 ms"
    using UnionType.prems by simp
  have n: "10 \<le> n" using UnionType.prems by simp
  show ?case
    unfolding SerializeLogicalType.simps canonical_type.simps(6)
    by (rule members_fit [OF ih room len n])
next
  case (EnumType vs)
  let ?text = "enum_text 0 vs"
  let ?tail = "'', ... +'' @ to_string (length vs - 10) @ '' more''"
  let ?more = "if length vs > 10 then ?tail else []"
  let ?b1 = "''ENUM('' @ ?text"
  let ?b2 = "?b1 @ ?more"
  have canon: "canonical_type (EnumType vs) = ?b2 @ '')''"
    by (simp add: canonical_type.simps(7) enum_text_join)
  have "length (?b2 @ '')'') < n"
    using EnumType.prems unfolding has_room.simps canon by blast
  then have len: "length ?b2 + 1 < n" by simp
  have len1: "length ?b1 \<le> length ?b2" by simp
  have room: "values_room n (length ''ENUM('') 0 vs"
    using EnumType.prems by simp
  have a: "snprintf_at n ([], 0) ''ENUM('' = Some (''ENUM('', length ''ENUM('')"
    using snprintf_at_fit [of "[]" "''ENUM(''" n] len by simp
  have b: "enum_loop n (length vs) vs 0 (''ENUM('', length ''ENUM('') = Some (?b1, length ?b1)"
    using enum_loop_fit [of 0 vs "length vs" n "''ENUM(''", OF _ room _ EnumType.prems(2)] len len1
    by simp
  have c: "(if length vs > 10 then snprintf_at n (?b1, length ?b1) ?tail else Some (?b1, length ?b1))
           = Some (?b2, length ?b2)"
  proof (cases "length vs > 10")
    case True
    then have "length ?b1 + length ?tail < n" using len by simp
    from snprintf_at_fit [OF this] True show ?thesis by simp
  next
    case False
    then show ?thesis by simp
  qed
  have d: "snprintf_at n (?b2, length ?b2) '')'' = Some (?b2 @ '')'', length ?b2 + length '')'')"
    by (rule snprintf_at_fit) (use len in simp)
  have "n \<noteq> 0" using len by simp
  then have "SerializeLogicalType (EnumType vs) n = Some (?b2 @ '')'')"
    by (simp only: SerializeLogicalType.simps Let_def a b c d option.case fst_conv if_False)
  then show ?case
    unfolding canon .
next
  case (PlainType b)
  then show ?case by (simp add: snprintf_buf_fit)
qed


text \<open>
  The converse. Every \<^verbatim>\<open>snprintf\<close> adds the full length of its text to \<^verbatim>\<open>offset\<close> and
  leaves in the buffer a string of \<^verbatim>\<open>offset\<close> characters, or of \<open>n - 1\<close> when that is
  less; so the result is never longer than the rendering by the rules, and it is as
  long only if no loop has stopped early, no part was cut and the whole has room.
\<close>

lemma snprintf_at_inv:
  assumes "snprintf_at n (buf, off) s = Some (buf', off')"
    and "length buf = min off (n - 1)" and "0 < n"
  shows "off' = off + length s \<and> length buf' = min off' (n - 1)"
  using assms by (auto simp add: snprintf_at_def min_def split: if_splits)

lemma separator_inv:
  assumes "(if (0::nat) < i then snprintf_at n (buf, off) '', '' else Some (buf, off)) = Some (buf', off')"
    and "length buf = min off (n - 1)" and "0 < n"
  shows "off' = off + length (if 0 < i then '', '' else []) \<and> length buf' = min off' (n - 1)"
proof (cases "0 < i")
  case True
  with assms(1) have "snprintf_at n (buf, off) '', '' = Some (buf', off')" by simp
  from snprintf_at_inv [OF this assms(2,3)] True show ?thesis by simp
next
  case False
  with assms show ?thesis by simp
qed

lemma member_loop_length:
  assumes "\<And>name c cb. (name, c) \<in> set ms \<Longrightarrow> SerializeLogicalType c 256 = Some cb \<Longrightarrow>
             length cb \<le> length (canonical_type c) \<and>
             (length cb = length (canonical_type c) \<longrightarrow> has_room c 256)"
    and "member_loop n ms i (buf, off) = Some (buf', off')"
    and "length buf = min off (n - 1)"
    and "10 \<le> n"
  shows "length buf' = min off' (n - 1) \<and>
         off' \<le> off + length (members_text i ms) \<and>
         (off' = off + length (members_text i ms) \<longrightarrow>
            members_room n off i ms \<and> list_all (\<lambda>(name, t). has_room t 256) ms)"
  using assms
proof (induction ms arbitrary: i buf off)
  case Nil
  then show ?case by simp
next
  case (Cons m rest)
  obtain name c where m: "m = (name, c)" by (cases m)
  have n0: "0 < n" using Cons.prems(4) by simp
  show ?case
  proof (cases "off < size_t_minus n 10")
    case False
    then have "member_loop n (m # rest) i (buf, off) = Some (buf, off)"
      by (simp add: m)
    with Cons.prems(2) have e: "buf' = buf" "off' = off" by simp_all
    have "0 < length (members_text i (m # rest))" by (simp add: m)
    with e Cons.prems(3) show ?thesis by simp
  next
    case True
    let ?sep = "if 0 < i then '', '' else []"
    have g: "off + 10 < n"
      using True Cons.prems(4) by (simp add: size_t_minus_small)
    from Cons.prems(2) True obtain st1 cb st2 where
      s1: "(if 0 < i then snprintf_at n (buf, off) '', '' else Some (buf, off)) = Some st1"
      and cb: "SerializeLogicalType c 256 = Some cb"
      and s2: "snprintf_at n st1 (name @ '' '' @ cb) = Some st2"
      and rec: "member_loop n rest (i + 1) st2 = Some (buf', off')"
      unfolding m by (simp split: option.splits)
    obtain b1 o1 where st1: "st1 = (b1, o1)" by (cases st1)
    obtain b2 o2 where st2: "st2 = (b2, o2)" by (cases st2)
    have i1: "o1 = off + length ?sep \<and> length b1 = min o1 (n - 1)"
      using separator_inv [OF s1 [unfolded st1] Cons.prems(3) n0] .
    have i2: "o2 = o1 + length (name @ '' '' @ cb) \<and> length b2 = min o2 (n - 1)"
      using snprintf_at_inv [OF s2 [unfolded st1 st2] _ n0] i1 by simp
    have cl: "length cb \<le> length (canonical_type c) \<and>
              (length cb = length (canonical_type c) \<longrightarrow> has_room c 256)"
      by (rule Cons.prems(1) [of name c cb]) (simp_all add: m cb)
    have ih: "length buf' = min off' (n - 1) \<and>
         off' \<le> o2 + length (members_text (i + 1) rest) \<and>
         (off' = o2 + length (members_text (i + 1) rest) \<longrightarrow>
            members_room n o2 (i + 1) rest \<and> list_all (\<lambda>(name, t). has_room t 256) rest)"
    proof (rule Cons.IH [OF _ rec [unfolded st2] _ Cons.prems(4)])
      show "length b2 = min o2 (n - 1)" using i2 by simp
    next
      fix name' c' cb'
      assume "(name', c') \<in> set rest" "SerializeLogicalType c' 256 = Some cb'"
      then show "length cb' \<le> length (canonical_type c') \<and>
             (length cb' = length (canonical_type c') \<longrightarrow> has_room c' 256)"
        using Cons.prems(1) [of name' c' cb'] by simp
    qed
    have o2: "o2 = off + length ?sep + length name + 1 + length cb"
      using i1 i2 by simp
    have t: "length (members_text i (m # rest))
               = length ?sep + length name + 1 + length (canonical_type c)
                 + length (members_text (i + 1) rest)"
      by (simp add: m)
    have single: "length (members_text i [(name, c)])
               = length ?sep + length name + 1 + length (canonical_type c)"
      by simp
    have le: "off' \<le> off + length (members_text i (m # rest))"
      using ih cl unfolding o2 t by linarith
    have eq: "members_room n off i (m # rest) \<and> list_all (\<lambda>(name, t). has_room t 256) (m # rest)"
      if "off' = off + length (members_text i (m # rest))"
    proof -
      from that ih cl have a: "length cb = length (canonical_type c)"
        and b: "off' = o2 + length (members_text (i + 1) rest)"
        unfolding o2 t by linarith+
      from a cl have hc: "has_room c 256" by simp
      from b ih have r: "members_room n o2 (i + 1) rest"
        and l: "list_all (\<lambda>(name, t). has_room t 256) rest" by simp_all
      have "o2 = off + length (members_text i [(name, c)])"
        unfolding o2 single using a by simp
      with r g hc l show ?thesis
        unfolding m by (simp del: members_text.simps)
    qed
    from ih le eq show ?thesis by blast
  qed
qed


lemma enum_loop_length:
  assumes "enum_loop n dict_size vals i (buf, off) = Some (buf', off')"
    and "length buf = min off (n - 1)"
    and "20 \<le> n"
    and "i + length vals = dict_size"
  shows "length buf' = min off' (n - 1) \<and>
         off' \<le> off + length (enum_text i vals) \<and>
         (off' = off + length (enum_text i vals) \<longrightarrow> values_room n off i vals)"
  using assms
proof (induction vals arbitrary: i buf off)
  case Nil
  then show ?case by simp
next
  case (Cons v vs)
  have n0: "0 < n" using Cons.prems(3) by simp
  show ?case
  proof (cases "i < 10")
    case False
    with Cons.prems(1,2) show ?thesis by simp
  next
    case i10: True
    show ?thesis
    proof (cases "off < size_t_minus n 20")
      case False
      then have "enum_loop n dict_size (v # vs) i (buf, off) = Some (buf, off)"
        by simp
      with Cons.prems(1) have e: "buf' = buf" "off' = off" by simp_all
      have "0 < length (enum_text i (v # vs))" using i10 by simp
      with e Cons.prems(2) show ?thesis by simp
    next
      case True
      let ?sep = "if 0 < i then '', '' else []"
      have g: "off + 20 < n"
        using True Cons.prems(3) by (simp add: size_t_minus_small)
      have "i < dict_size" using Cons.prems(4) by simp
      with Cons.prems(1) True i10 obtain st1 st2 where
        s1: "(if 0 < i then snprintf_at n (buf, off) '', '' else Some (buf, off)) = Some st1"
        and s2: "snprintf_at n st1 ([squote] @ v @ [squote]) = Some st2"
        and rec: "enum_loop n dict_size vs (i + 1) st2 = Some (buf', off')"
        by (simp split: option.splits)
      obtain b1 o1 where st1: "st1 = (b1, o1)" by (cases st1)
      obtain b2 o2 where st2: "st2 = (b2, o2)" by (cases st2)
      have i1: "o1 = off + length ?sep \<and> length b1 = min o1 (n - 1)"
        using separator_inv [OF s1 [unfolded st1] Cons.prems(2) n0] .
      have i2: "o2 = o1 + length ([squote] @ v @ [squote]) \<and> length b2 = min o2 (n - 1)"
        using snprintf_at_inv [OF s2 [unfolded st1 st2] _ n0] i1 by simp
      have ih: "length buf' = min off' (n - 1) \<and>
           off' \<le> o2 + length (enum_text (i + 1) vs) \<and>
           (off' = o2 + length (enum_text (i + 1) vs) \<longrightarrow> values_room n o2 (i + 1) vs)"
      proof (rule Cons.IH [OF rec [unfolded st2] _ Cons.prems(3)])
        show "length b2 = min o2 (n - 1)" using i2 by simp
        show "i + 1 + length vs = dict_size" using Cons.prems(4) by simp
      qed
      have o2: "o2 = off + length ?sep + length v + 2"
        using i1 i2 by simp
      have t: "length (enum_text i (v # vs))
                 = length ?sep + length v + 2 + length (enum_text (i + 1) vs)"
        using i10 by simp
      have single: "length (enum_text i [v]) = length ?sep + length v + 2"
        using i10 by simp
      have le: "off' \<le> off + length (enum_text i (v # vs))"
        using ih unfolding o2 t by linarith
      have eq: "values_room n off i (v # vs)"
        if "off' = off + length (enum_text i (v # vs))"
      proof -
        from that ih have b: "off' = o2 + length (enum_text (i + 1) vs)"
          unfolding o2 t by linarith
        with ih have r: "values_room n o2 (i + 1) vs" by simp
        have "o2 = off + length (enum_text i [v])"
          unfolding o2 single by simp
        with r g i10 show ?thesis
          by (simp del: enum_text.simps)
      qed
      from ih le eq show ?thesis by blast
    qed
  qed
qed

lemma snprintf_buf_length:
  assumes "snprintf_buf n text = Some s" and "length text \<le> k"
  shows "length s \<le> k \<and> (length s = k \<longrightarrow> length text = k \<and> k < n \<and> s = text)"
  using assms by (auto simp add: snprintf_buf_def min_def split: if_splits)

lemma members_length:
  assumes ch: "\<And>name c cb. (name, c) \<in> set ms \<Longrightarrow> SerializeLogicalType c 256 = Some cb \<Longrightarrow>
             length cb \<le> length (canonical_type c) \<and>
             (length cb = length (canonical_type c) \<longrightarrow> has_room c 256)"
    and run: "(case snprintf_at n ([], 0) prefix of
        None \<Rightarrow> None
      | Some st \<Rightarrow>
          (case member_loop n ms 0 st of
             None \<Rightarrow> None
           | Some st1 \<Rightarrow>
               (case snprintf_at n st1 '')'' of
                  None \<Rightarrow> None
                | Some st2 \<Rightarrow> if n = 0 then None else Some (fst st2)))) = Some s"
    and n: "20 \<le> n"
  shows "length s \<le> length (prefix @ members_text 0 ms @ '')'') \<and>
         (length s = length (prefix @ members_text 0 ms @ '')'') \<longrightarrow>
            list_all (\<lambda>(name, t). has_room t 256) ms \<and>
            members_room n (length prefix) 0 ms \<and>
            length (prefix @ members_text 0 ms @ '')'') < n)"
proof -
  have n0: "0 < n" and n10: "10 \<le> n" using n by simp_all
  from run n0 obtain st st1 st2 where
    a: "snprintf_at n ([], 0) prefix = Some st"
    and b: "member_loop n ms 0 st = Some st1"
    and c: "snprintf_at n st1 '')'' = Some st2"
    and s: "s = fst st2"
    by (auto split: option.splits)
  obtain b0 o0 where st: "st = (b0, o0)" by (cases st)
  obtain b1 o1 where st1: "st1 = (b1, o1)" by (cases st1)
  obtain b2 o2 where st2: "st2 = (b2, o2)" by (cases st2)
  have i0: "o0 = length prefix \<and> length b0 = min o0 (n - 1)"
    using snprintf_at_inv [OF a [unfolded st] _ n0] by simp
  have i1: "length b1 = min o1 (n - 1) \<and>
         o1 \<le> o0 + length (members_text 0 ms) \<and>
         (o1 = o0 + length (members_text 0 ms) \<longrightarrow>
            members_room n o0 0 ms \<and> list_all (\<lambda>(name, t). has_room t 256) ms)"
    by (rule member_loop_length [OF ch b [unfolded st st1] _ n10]) (use i0 in simp_all)
  have i2: "o2 = o1 + 1 \<and> length b2 = min o2 (n - 1)"
    using snprintf_at_inv [OF c [unfolded st1 st2] _ n0] i1 by simp
  have len: "length s = min (o1 + 1) (n - 1)"
    using s st2 i2 by simp
  have total: "length (prefix @ members_text 0 ms @ '')'') = length prefix + length (members_text 0 ms) + 1"
    by simp
  show ?thesis
    unfolding total len using i0 i1 by (auto simp add: min_def split: if_splits)
qed


lemma optional_inv:
  assumes "(if b then snprintf_at n (buf, off) text else Some (buf, off)) = Some (buf', off')"
    and "length buf = min off (n - 1)" and "0 < n"
  shows "off' = off + length (if b then text else []) \<and> length buf' = min off' (n - 1)"
proof (cases b)
  case True
  with assms(1) have "snprintf_at n (buf, off) text = Some (buf', off')" by simp
  from snprintf_at_inv [OF this assms(2,3)] True show ?thesis by simp
next
  case False
  with assms show ?thesis by simp
qed

lemma serialize_length:
  "SerializeLogicalType t n = Some s \<Longrightarrow> 20 \<le> n \<Longrightarrow>
   length s \<le> length (canonical_type t) \<and>
   (length s = length (canonical_type t) \<longrightarrow> has_room t n)"
proof (induction t arbitrary: n s)
  case (DecimalType w sc)
  then have "snprintf_buf n (canonical_type (DecimalType w sc)) = Some s" by simp
  from snprintf_buf_length [OF this order_refl] show ?case by simp
next
  case (ListType c)
  from ListType.prems(1) obtain cb where
    cb: "SerializeLogicalType c 512 = Some cb" and w: "snprintf_buf n (cb @ ''[]'') = Some s"
    by (auto split: option.splits)
  from ListType.IH [OF cb] have ih: "length cb \<le> length (canonical_type c) \<and>
     (length cb = length (canonical_type c) \<longrightarrow> has_room c 512)" by simp
  have "length (cb @ ''[]'') \<le> length (canonical_type (ListType c))" using ih by simp
  from snprintf_buf_length [OF w this] ih show ?case by auto
next
  case (ArrayType c k)
  from ArrayType.prems(1) obtain cb where
    cb: "SerializeLogicalType c 512 = Some cb"
    and w: "snprintf_buf n (cb @ ''['' @ to_string (unat k) @ '']'') = Some s"
    by (auto split: option.splits)
  from ArrayType.IH [OF cb] have ih: "length cb \<le> length (canonical_type c) \<and>
     (length cb = length (canonical_type c) \<longrightarrow> has_room c 512)" by simp
  have "length (cb @ ''['' @ to_string (unat k) @ '']'') \<le> length (canonical_type (ArrayType c k))"
    using ih by simp
  from snprintf_buf_length [OF w this] ih show ?case by auto
next
  case (MapType k v)
  from MapType.prems(1) obtain kb vb where
    kb: "SerializeLogicalType k 256 = Some kb" and vb: "SerializeLogicalType v 256 = Some vb"
    and w: "snprintf_buf n (''MAP('' @ kb @ '', '' @ vb @ '')'') = Some s"
    by (auto split: option.splits)
  from MapType.IH(1) [OF kb] have ihk: "length kb \<le> length (canonical_type k) \<and>
     (length kb = length (canonical_type k) \<longrightarrow> has_room k 256)" by simp
  from MapType.IH(2) [OF vb] have ihv: "length vb \<le> length (canonical_type v) \<and>
     (length vb = length (canonical_type v) \<longrightarrow> has_room v 256)" by simp
  have "length (''MAP('' @ kb @ '', '' @ vb @ '')'') \<le> length (canonical_type (MapType k v))"
    using ihk ihv by simp
  from snprintf_buf_length [OF w this] ihk ihv show ?case by auto
next
  case (StructType ms)
  have ch: "length cb \<le> length (canonical_type c) \<and>
            (length cb = length (canonical_type c) \<longrightarrow> has_room c 256)"
    if "(name, c) \<in> set ms" "SerializeLogicalType c 256 = Some cb" for name c cb
  proof -
    have "c \<in> Basic_BNFs.snds (name, c)" by simp
    from StructType.IH [OF that(1) this that(2)] show ?thesis by simp
  qed
  have canon: "canonical_type (StructType ms) = ''STRUCT('' @ members_text 0 ms @ '')''"
    by (simp add: canonical_type.simps(5) members_text_join)
  have "length s \<le> length (''STRUCT('' @ members_text 0 ms @ '')'') \<and>
         (length s = length (''STRUCT('' @ members_text 0 ms @ '')'') \<longrightarrow>
            list_all (\<lambda>(name, t). has_room t 256) ms \<and>
            members_room n (length ''STRUCT('') 0 ms \<and>
            length (''STRUCT('' @ members_text 0 ms @ '')'') < n)"
    by (rule members_length
          [OF _ StructType.prems(1) [unfolded SerializeLogicalType.simps] StructType.prems(2)])
       (rule ch; assumption)
  then show ?case
    unfolding has_room.simps canon by blast
next
  case (UnionType ms)
  have ch: "length cb \<le> length (canonical_type c) \<and>
            (length cb = length (canonical_type c) \<longrightarrow> has_room c 256)"
    if "(name, c) \<in> set ms" "SerializeLogicalType c 256 = Some cb" for name c cb
  proof -
    have "c \<in> Basic_BNFs.snds (name, c)" by simp
    from UnionType.IH [OF that(1) this that(2)] show ?thesis by simp
  qed
  have canon: "canonical_type (UnionType ms) = ''UNION('' @ members_text 0 ms @ '')''"
    by (simp add: canonical_type.simps(6) members_text_join)
  have "length s \<le> length (''UNION('' @ members_text 0 ms @ '')'') \<and>
         (length s = length (''UNION('' @ members_text 0 ms @ '')'') \<longrightarrow>
            list_all (\<lambda>(name, t). has_room t 256) ms \<and>
            members_room n (length ''UNION('') 0 ms \<and>
            length (''UNION('' @ members_text 0 ms @ '')'') < n)"
    by (rule members_length
          [OF _ UnionType.prems(1) [unfolded SerializeLogicalType.simps] UnionType.prems(2)])
       (rule ch; assumption)
  then show ?case
    unfolding has_room.simps canon by blast
next
  case (EnumType vs)
  let ?text = "enum_text 0 vs"
  let ?tail = "'', ... +'' @ to_string (length vs - 10) @ '' more''"
  let ?more = "if length vs > 10 then ?tail else []"
  have canon: "canonical_type (EnumType vs) = ''ENUM('' @ ?text @ ?more @ '')''"
    by (simp add: canonical_type.simps(7) enum_text_join)
  have n0: "0 < n" using EnumType.prems(2) by simp
  from EnumType.prems(1) n0 obtain st st1 st2 st3 where
    a: "snprintf_at n ([], 0) ''ENUM('' = Some st"
    and b: "enum_loop n (length vs) vs 0 st = Some st1"
    and c: "(if length vs > 10 then snprintf_at n st1 ?tail else Some st1) = Some st2"
    and d: "snprintf_at n st2 '')'' = Some st3"
    and s: "s = fst st3"
    by (auto simp add: Let_def split: option.splits)
  obtain b0 o0 where st: "st = (b0, o0)" by (cases st)
  obtain b1 o1 where st1: "st1 = (b1, o1)" by (cases st1)
  obtain b2 o2 where st2: "st2 = (b2, o2)" by (cases st2)
  obtain b3 o3 where st3: "st3 = (b3, o3)" by (cases st3)
  have i0: "o0 = length ''ENUM('' \<and> length b0 = min o0 (n - 1)"
    using snprintf_at_inv [OF a [unfolded st] _ n0] by simp
  have i1: "length b1 = min o1 (n - 1) \<and>
         o1 \<le> o0 + length ?text \<and>
         (o1 = o0 + length ?text \<longrightarrow> values_room n o0 0 vs)"
    by (rule enum_loop_length [OF b [unfolded st st1] _ EnumType.prems(2)]) (use i0 in simp_all)
  have i2: "o2 = o1 + length ?more \<and> length b2 = min o2 (n - 1)"
    using optional_inv [OF c [unfolded st1 st2] _ n0] i1 by simp
  have i3: "o3 = o2 + 1 \<and> length b3 = min o3 (n - 1)"
    using snprintf_at_inv [OF d [unfolded st2 st3] _ n0] i2 by simp
  have len: "length s = min (o1 + length ?more + 1) (n - 1)"
    using s st3 i2 i3 by simp
  have total: "length (''ENUM('' @ ?text @ ?more @ '')'') = length ''ENUM('' + length ?text + length ?more + 1"
    by simp
  show ?case
    unfolding has_room.simps canon total len using i0 i1
    by (auto simp add: min_def split: if_splits)
next
  case (PlainType b)
  then have "snprintf_buf n (canonical_type (PlainType b)) = Some s" by simp
  from snprintf_buf_length [OF this order_refl] show ?case by simp
qed

lemma serialize_exact:
  assumes "20 \<le> n"
  shows "(SerializeLogicalType t n = Some (canonical_type t)) = has_room t n"
proof
  assume "SerializeLogicalType t n = Some (canonical_type t)"
  from serialize_length [OF this assms] show "has_room t n" by simp
next
  assume "has_room t n"
  then show "SerializeLogicalType t n = Some (canonical_type t)"
    using assms by (rule serialize_has_room)
qed

text \<open>
  Claim C8, as stated, fails: the buffers are of fixed size and the loops stop when a
  buffer is nearly full. For a struct whose member is a struct of 25 integer columns, the
  inner struct is written into 256 bytes: the columns after \<^verbatim>\<open>c19\<close> and its closing
  parenthesis are missing from the result.
\<close>

theorem serialize_type_cuts_wide_types:
  "serialize_type wide_nested_struct \<noteq> Some (canonical_type wide_nested_struct)"
  by code_simp

text \<open>
  Claim C8, amended: the serializer returns the rendering of a type by the stated rules
  exactly when the rendering has room in the buffers of the code, that is, when it is
  shorter than its buffer (1024 bytes for the type, 512 for the element of a list or
  array, 256 for the key and the value of a map and for a member of a struct or union),
  the text before each member of a struct or union is more than ten bytes, the text
  before each listed value of an enum more than twenty bytes short of the buffer, and the
  parts have room in the same sense. The rules are: \<^verbatim>\<open>DECIMAL(width,scale)\<close>, the element
  followed by \<^verbatim>\<open>[]\<close> or by the size in brackets, \<^verbatim>\<open>MAP(key, value)\<close>, the members of a
  struct or union by name and type in their order, the base name for any other type, and
  for an enum at most the first ten values, followed by \<^verbatim>\<open>, ... +K more\<close> exactly when
  there are more than ten, \<open>K\<close> being the number of values left out.
\<close>

theorem serialize_type_renders_exactly_with_room:
  "(serialize_type t = Some (canonical_type t)) = has_room t 1024 \<and>
   (20 \<le> n \<longrightarrow> (SerializeLogicalType t n = Some (canonical_type t)) = has_room t n) \<and>
   (length dictionary \<le> 10 \<longrightarrow>
      canonical_type (EnumType dictionary) =
        ''ENUM('' @ join_with '', '' (map (\<lambda>v. [squote] @ v @ [squote]) dictionary) @ '')'') \<and>
   (length dictionary > 10 \<longrightarrow>
      canonical_type (EnumType dictionary) =
        ''ENUM('' @ join_with '', '' (map (\<lambda>v. [squote] @ v @ [squote]) (take 10 dictionary))
          @ '', ... +'' @ to_string (length (drop 10 dictionary)) @ '' more'' @ '')'') \<and>
   serialize_type list_of_integer = Some ''INTEGER[]'' \<and>
   serialize_type map_varchar_integer = Some ''MAP(VARCHAR, INTEGER)''"
proof -
  have l: "serialize_type list_of_integer = Some ''INTEGER[]''"
    by (simp add: serialize_type_def list_of_integer_def snprintf_buf_def)
  have m: "serialize_type map_varchar_integer = Some ''MAP(VARCHAR, INTEGER)''"
    by (simp add: serialize_type_def map_varchar_integer_def snprintf_buf_def)
  have e: "(serialize_type t = Some (canonical_type t)) = has_room t 1024"
    unfolding serialize_type_def by (rule serialize_exact) simp
  from l m e show ?thesis
    by (simp add: serialize_exact canonical_type.simps(7))
qed

theorem serialize_type_renders_exactly_with_room_witness:
  "(20::nat) \<le> 256 \<and> has_room list_of_integer 256 \<and>
   SerializeLogicalType list_of_integer 256 = Some ''INTEGER[]'' \<and>
   has_room nested_example 1024 \<and>
   serialize_type nested_example =
     Some (''STRUCT(id BIGINT, price DECIMAL(18,3), tags VARCHAR[], pos DOUBLE[3], ''
           @ ''attrs MAP(VARCHAR, INTEGER), u UNION(n INTEGER, s VARCHAR), mood ENUM(''
           @ [squote] @ ''sad'' @ [squote] @ '', '' @ [squote] @ ''ok'' @ [squote] @ '', ''
           @ [squote] @ ''happy'' @ [squote] @ ''))'') \<and>
   has_room twelve_values 1024 \<and> length [''a'', ''b'', ''c'', ''d'', ''e'', ''f'', ''g'', ''h'', ''i'', ''j'', ''k'', ''l''] > 10 \<and>
   serialize_type twelve_values =
     Some (''ENUM('' @ join_with '', '' (map (\<lambda>v. [squote] @ v @ [squote])
                         [''a'', ''b'', ''c'', ''d'', ''e'', ''f'', ''g'', ''h'', ''i'', ''j''])
           @ '', ... +2 more)'')"
proof -
  have h1: "has_room nested_example 1024" by code_simp
  have c1: "canonical_type nested_example =
     ''STRUCT(id BIGINT, price DECIMAL(18,3), tags VARCHAR[], pos DOUBLE[3], ''
           @ ''attrs MAP(VARCHAR, INTEGER), u UNION(n INTEGER, s VARCHAR), mood ENUM(''
           @ [squote] @ ''sad'' @ [squote] @ '', '' @ [squote] @ ''ok'' @ [squote] @ '', ''
           @ [squote] @ ''happy'' @ [squote] @ ''))''"
    by code_simp
  have h2: "has_room twelve_values 1024" by code_simp
  have c2: "canonical_type twelve_values =
     ''ENUM('' @ join_with '', '' (map (\<lambda>v. [squote] @ v @ [squote])
                         [''a'', ''b'', ''c'', ''d'', ''e'', ''f'', ''g'', ''h'', ''i'', ''j''])
           @ '', ... +2 more)''"
    by code_simp
  from serialize_type_renders_exactly_with_room [of nested_example 1024] h1
  have s1: "serialize_type nested_example = Some (canonical_type nested_example)" by blast
  from serialize_type_renders_exactly_with_room [of twelve_values 1024] h2
  have s2: "serialize_type twelve_values = Some (canonical_type twelve_values)" by blast
  have h3: "has_room list_of_integer 256" by code_simp
  have c3: "canonical_type list_of_integer = ''INTEGER[]''" by code_simp
  from serialize_type_renders_exactly_with_room [of list_of_integer 256] h3
  have s3: "SerializeLogicalType list_of_integer 256 = Some (canonical_type list_of_integer)"
    by simp
  from h1 h2 h3 s1 s2 s3 show ?thesis
    unfolding c1 c2 c3 by simp
qed


text \<open>Beyond the amended claim: a member text that ends behind the buffer moves
  \<^verbatim>\<open>offset\<close> past \<^verbatim>\<open>buf_size\<close>, and the next \<^verbatim>\<open>snprintf\<close> writes outside the buffer. This
  happens for a struct of four members, each a struct of twenty integer columns.\<close>

lemma wide_members_overrun: "serialize_type four_wide_members = None"
  by code_simp

end
